theory Spec2Isabelle
  imports Complex_Main "HOL-Library.Multiset"
begin

section \<open>Python exceptions and the random module\<close>

text \<open>
  Every \<^verbatim>\<open>raise\<close> of the source is a value: \<open>ValueError\<close> carries the message of the
  source (a pydantic \<^verbatim>\<open>ValidationError\<close> is a \<open>ValueError\<close> too), \<open>IndexError\<close> is what an
  out-of-range subscript raises, \<open>AttributeError\<close> what reading an attribute that was never
  assigned raises, \<open>ProviderError\<close> whatever a content provider raises.
\<close>

datatype error = ValueError string | IndexError | AttributeError string | ProviderError string

text \<open>
  The source draws all its randomness from the module-level generator of Python's
  \<^verbatim>\<open>random\<close>. That generator is library code; it is a parameter of the model: a state
  type \<open>'g\<close> with one function for each call the source makes. \<open>rng_choice_index g n\<close>
  is the index \<^verbatim>\<open>random.choice\<close> draws for a sequence of length \<open>n\<close>.
\<close>

record 'g rng =
  rng_seed :: "int \<Rightarrow> 'g"
  rng_randint :: "'g \<Rightarrow> int \<Rightarrow> int \<Rightarrow> int \<times> 'g"
  rng_choice_index :: "'g \<Rightarrow> nat \<Rightarrow> nat \<times> 'g"
  rng_random :: "'g \<Rightarrow> real \<times> 'g"
  rng_shuffle :: "'g \<Rightarrow> (int \<times> int) list \<Rightarrow> (int \<times> int) list \<times> 'g"

text \<open>\<^verbatim>\<open>random.choice(seq)\<close> is \<^verbatim>\<open>seq[i]\<close> for the drawn index; a subscript out of range raises.\<close>

definition choice :: "'g rng \<Rightarrow> 'g \<Rightarrow> 'a list \<Rightarrow> error + 'a \<times> 'g" where
  "choice R g xs =
     (let (i, g') = rng_choice_index R g (length xs)
      in if i < length xs then Inr (xs ! i, g') else Inl IndexError)"

text \<open>What the library promises of the two calls the proofs depend on.\<close>

definition choice_ok :: "'g rng \<Rightarrow> bool" where
  "choice_ok R = (\<forall>g n. 0 < n \<longrightarrow> fst (rng_choice_index R g n) < n)"

definition shuffle_ok :: "'g rng \<Rightarrow> bool" where
  "shuffle_ok R = (\<forall>g xs. mset (fst (rng_shuffle R g xs)) = mset xs)"

text \<open>
  A small generator on which the definitions can be evaluated: a linear congruential
  state, the index taken modulo the length, a shuffle that rotates the list by one.
\<close>

definition lcg_next :: "nat \<Rightarrow> nat" where
  "lcg_next g = (5 * g + 3) mod 16"

definition lcg :: "nat rng" where
  "lcg = \<lparr> rng_seed = (\<lambda>s. nat \<bar>s\<bar> mod 16),
           rng_randint = (\<lambda>g lo hi. (lo + int g mod (hi - lo + 1), lcg_next g)),
           rng_choice_index = (\<lambda>g n. (g mod n, lcg_next g)),
           rng_random = (\<lambda>g. (real g / 16, lcg_next g)),
           rng_shuffle = (\<lambda>g xs. (rotate1 xs, lcg_next g)) \<rparr>"

section \<open>core/maze.py\<close>

datatype direction = North | South | East | West

text \<open>The key order of the \<^verbatim>\<open>directions\<close> and \<^verbatim>\<open>walls\<close> dictionaries.\<close>

definition directions :: "direction list" where
  "directions = [North, South, East, West]"

fun delta :: "direction \<Rightarrow> int \<times> int" where
  "delta North = (0, -1)"
| "delta South = (0, 1)"
| "delta East = (1, 0)"
| "delta West = (-1, 0)"

fun opposite :: "direction \<Rightarrow> direction" where
  "opposite North = South"
| "opposite South = North"
| "opposite East = West"
| "opposite West = East"

text \<open>
  A \<^verbatim>\<open>Cell\<close> is a mutable object that the grid and the DFS stack share by reference. The
  model keeps the cells in a store keyed by the grid position \<open>(x, y)\<close> of the cell, which
  is also the value of its fields \<^verbatim>\<open>x\<close> and \<^verbatim>\<open>y\<close>; a reference to a cell is its key.
\<close>

record cell =
  walls :: "direction \<Rightarrow> bool"
  visited :: bool
  decision_node :: bool

definition new_cell :: cell where
  "new_cell = \<lparr> walls = (\<lambda>d. True), visited = False, decision_node = False \<rparr>"

definition open_directions :: "cell \<Rightarrow> direction list" where
  "open_directions c = filter (\<lambda>d. \<not> walls c d) directions"

definition opening_count :: "cell \<Rightarrow> nat" where
  "opening_count c = length (open_directions c)"

record maze =
  width :: int
  height :: int
  seed :: int
  grid :: "int \<times> int \<Rightarrow> cell"
  start_pos :: "int \<times> int"

definition in_bounds :: "maze \<Rightarrow> int \<times> int \<Rightarrow> bool" where
  "in_bounds m p = (0 \<le> fst p \<and> fst p < width m \<and> 0 \<le> snd p \<and> snd p < height m)"

definition get_cell :: "maze \<Rightarrow> int \<Rightarrow> int \<Rightarrow> cell option" where
  "get_cell m x y =
     (if 0 \<le> x \<and> x < width m \<and> 0 \<le> y \<and> y < height m then Some (grid m (x, y)) else None)"

definition step_to :: "int \<times> int \<Rightarrow> direction \<Rightarrow> int \<times> int" where
  "step_to p d = (fst p + fst (delta d), snd p + snd (delta d))"

text \<open>\<^verbatim>\<open>get_neighbors\<close>: the references of the neighbours inside the grid, with the direction.\<close>

definition get_neighbors :: "maze \<Rightarrow> int \<times> int \<Rightarrow> ((int \<times> int) \<times> direction) list" where
  "get_neighbors m p =
     map (\<lambda>d. (step_to p d, d))
       (filter (\<lambda>d. get_cell m (fst (step_to p d)) (snd (step_to p d)) \<noteq> None) directions)"

definition can_move :: "maze \<Rightarrow> int \<times> int \<Rightarrow> direction \<Rightarrow> bool" where
  "can_move m p d = (\<not> walls (grid m p) d)"

text \<open>Assignments to the fields of the cell at a position.\<close>

definition set_wall :: "maze \<Rightarrow> int \<times> int \<Rightarrow> direction \<Rightarrow> bool \<Rightarrow> maze" where
  "set_wall m p d b =
     m\<lparr>grid := (grid m)(p := (grid m p)\<lparr>walls := (walls (grid m p))(d := b)\<rparr>)\<rparr>"

definition set_visited :: "maze \<Rightarrow> int \<times> int \<Rightarrow> maze" where
  "set_visited m p = m\<lparr>grid := (grid m)(p := (grid m p)\<lparr>visited := True\<rparr>)\<rparr>"

definition set_decision_node :: "maze \<Rightarrow> int \<times> int \<Rightarrow> maze" where
  "set_decision_node m p = m\<lparr>grid := (grid m)(p := (grid m p)\<lparr>decision_node := True\<rparr>)\<rparr>"

text \<open>The cells in the order of \<^verbatim>\<open>for y in range(height): for x in range(width)\<close>.\<close>

definition all_coords :: "maze \<Rightarrow> (int \<times> int) list" where
  "all_coords m = concat (map (\<lambda>y. map (\<lambda>x. (x, y)) [0..width m - 1]) [0..height m - 1])"

definition carve :: "maze \<Rightarrow> int \<times> int \<Rightarrow> int \<times> int \<Rightarrow> direction \<Rightarrow> maze" where
  "carve m current next_cell d =
     set_visited (set_wall (set_wall m current d False) next_cell (opposite d) False) next_cell"

definition unvisited_cells :: "maze \<Rightarrow> (int \<times> int) set" where
  "unvisited_cells m = {p. in_bounds m p \<and> \<not> visited (grid m p)}"

text \<open>
  The \<^verbatim>\<open>while stack:\<close> loop of the DFS backtracker. The head of the list is the top of
  the stack (\<^verbatim>\<open>stack[-1]\<close>).
\<close>

function dfs :: "'g rng \<Rightarrow> maze \<Rightarrow> (int \<times> int) list \<Rightarrow> 'g \<Rightarrow> error + maze \<times> 'g" where
  "dfs R m [] g = Inr (m, g)"
| "dfs R m (current # stack) g =
     (let unvisited_neighbors =
            filter (\<lambda>nd. \<not> visited (grid m (fst nd))) (get_neighbors m current)
      in if unvisited_neighbors \<noteq> [] then
           (case choice R g unvisited_neighbors of
              Inl e \<Rightarrow> Inl e
            | Inr (nd, g') \<Rightarrow>
                dfs R (carve m current (fst nd) (snd nd)) (fst nd # current # stack) g')
         else dfs R m stack g)"
  by pat_completeness auto

text \<open>
  The loop ends: a step either marks one more cell visited and pushes it, or pops.
\<close>

lemma choice_mem: "choice R g xs = Inr (x, g') \<Longrightarrow> x \<in> set xs"
  by (auto simp: choice_def Let_def split: prod.splits if_splits)

lemma in_bounds_set_wall [simp]: "in_bounds (set_wall m p d b) q = in_bounds m q"
  by (simp add: in_bounds_def set_wall_def)

lemma in_bounds_set_visited [simp]: "in_bounds (set_visited m p) q = in_bounds m q"
  by (simp add: in_bounds_def set_visited_def)

lemma in_bounds_carve [simp]: "in_bounds (carve m c n d) q = in_bounds m q"
  by (simp add: carve_def)

lemma visited_carve: "visited (grid (carve m c n d) q) = (q = n \<or> visited (grid m q))"
  by (simp add: carve_def set_visited_def set_wall_def)

lemma finite_in_bounds: "finite {p. in_bounds m p}"
proof -
  have "{p. in_bounds m p} \<subseteq> {0..<width m} \<times> {0..<height m}"
    by (auto simp: in_bounds_def)
  then show ?thesis by (rule finite_subset) simp
qed

lemma finite_unvisited: "finite (unvisited_cells m)"
  by (rule finite_subset [OF _ finite_in_bounds [of m]]) (auto simp: unvisited_cells_def)

lemma neighbor_in_bounds: "nd \<in> set (get_neighbors m p) \<Longrightarrow> in_bounds m (fst nd)"
  by (auto simp: get_neighbors_def get_cell_def in_bounds_def split: if_splits)

lemma unvisited_carve: "unvisited_cells (carve m c n d) = unvisited_cells m - {n}"
  by (auto simp: unvisited_cells_def visited_carve)

lemma card_unvisited_carve:
  assumes "in_bounds m n" "\<not> visited (grid m n)"
  shows "card (unvisited_cells (carve m c n d)) < card (unvisited_cells m)"
proof -
  have "n \<in> unvisited_cells m" using assms by (simp add: unvisited_cells_def)
  then show ?thesis
    unfolding unvisited_carve by (rule card_Diff1_less [OF finite_unvisited])
qed

termination dfs
proof (relation "measure (\<lambda>(R, m, stack, g). 2 * card (unvisited_cells m) + length stack)",
    goal_cases)
  case 1
  show ?case by simp
next
  case (2 R m current stack g uv x2 nd g')
  then have "nd \<in> set uv" by (auto dest: choice_mem)
  with 2 have "in_bounds m (fst nd)" "\<not> visited (grid m (fst nd))"
    by (auto dest: neighbor_in_bounds)
  from card_unvisited_carve [OF this, of current "snd nd"] show ?case by simp
next
  case 3
  then show ?case by simp
qed

declare dfs.simps(2) [simp del]

text \<open>
  The pass that marks decision nodes: a cell with at least three open sides draws
  \<^verbatim>\<open>random.random()\<close> and is marked when the draw is below 0.3. \<open>dn\<close> is the list
  \<^verbatim>\<open>decision_nodes\<close> of the marked coordinates.
\<close>

fun mark_pass ::
  "'g rng \<Rightarrow> (int \<times> int) list \<Rightarrow> maze \<Rightarrow> (int \<times> int) list \<Rightarrow> 'g \<Rightarrow> maze \<times> (int \<times> int) list \<times> 'g"
where
  "mark_pass R [] m dn g = (m, dn, g)"
| "mark_pass R (p # ps) m dn g =
     (if 3 \<le> opening_count (grid m p) then
        (let (r, g') = rng_random R g
         in if r < 3 / 10 then mark_pass R ps (set_decision_node m p) (dn @ [p]) g'
            else mark_pass R ps m dn g')
      else mark_pass R ps m dn g)"

text \<open>The fill-up when fewer than five cells were marked.\<close>

definition fill_candidates :: "maze \<Rightarrow> (int \<times> int) list" where
  "fill_candidates m =
     filter (\<lambda>p. 2 \<le> opening_count (grid m p) \<and> \<not> decision_node (grid m p)) (all_coords m)"

definition ensure_decision_nodes ::
  "'g rng \<Rightarrow> maze \<Rightarrow> (int \<times> int) list \<Rightarrow> 'g \<Rightarrow> maze \<times> 'g" where
  "ensure_decision_nodes R m dn g =
     (if length dn < 5 then
        (let (candidates, g') = rng_shuffle R g (fill_candidates m)
         in (fold (\<lambda>p m'. set_decision_node m' p) (take (5 - length dn) candidates) m, g'))
      else (m, g))"

text \<open>
  \<open>generate_maze R g0 w h seed\<close>: \<open>g0\<close> is the state of the module generator when the
  call is made. \<^verbatim>\<open>maze.grid[0][0]\<close> raises when the grid has no row or no column.
\<close>

definition generate_maze ::
  "'g rng \<Rightarrow> 'g \<Rightarrow> int \<Rightarrow> int \<Rightarrow> int option \<Rightarrow> error + maze \<times> 'g" where
  "generate_maze R g0 w h seed_arg =
     (let (sd, g1) = (case seed_arg of None \<Rightarrow> rng_randint R g0 1 999999 | Some s \<Rightarrow> (s, g0));
          g2 = rng_seed R sd;
          m0 = \<lparr> width = w, height = h, seed = sd, grid = (\<lambda>p. new_cell), start_pos = (0, 0) \<rparr>
      in if h \<le> 0 \<or> w \<le> 0 then Inl IndexError
         else
           (case dfs R (set_visited m0 (0, 0)) [(0, 0)] g2 of
              Inl e \<Rightarrow> Inl e
            | Inr (m1, g3) \<Rightarrow>
                (let (m2, dn, g4) = mark_pass R (all_coords m1) m1 [] g3;
                     (m3, g5) = ensure_decision_nodes R m2 dn g4
                 in Inr (m3\<lparr>start_pos := (0, 0)\<rparr>, g5))))"

text \<open>What the claims speak of: the decision nodes, the passages, the removed walls.\<close>

definition decision_nodes_of :: "maze \<Rightarrow> (int \<times> int) list" where
  "decision_nodes_of m = filter (\<lambda>p. decision_node (grid m p)) (all_coords m)"

definition passage :: "maze \<Rightarrow> int \<times> int \<Rightarrow> int \<times> int \<Rightarrow> bool" where
  "passage m p q =
     (in_bounds m p \<and> in_bounds m q \<and> (\<exists>d \<in> set directions. q = step_to p d \<and> can_move m p d))"

inductive reachable :: "maze \<Rightarrow> int \<times> int \<Rightarrow> int \<times> int \<Rightarrow> bool" for m :: maze and p :: "int \<times> int"
where
  reachable_start: "in_bounds m p \<Longrightarrow> reachable m p p"
| reachable_step: "reachable m p q \<Longrightarrow> passage m q r \<Longrightarrow> reachable m p r"

text \<open>
  An internal wall is the wall between a cell and its east or south neighbour; it is
  removed when it is open on both of its sides.
\<close>

definition removed_walls :: "maze \<Rightarrow> ((int \<times> int) \<times> direction) list" where
  "removed_walls m =
     filter (\<lambda>(p, d). in_bounds m (step_to p d) \<and> \<not> walls (grid m p) d
                        \<and> \<not> walls (grid m (step_to p d)) (opposite d))
       (List.product (all_coords m) [East, South])"

text \<open>The number of decision nodes of the maze a call returned (\<open>None\<close> when it raised).\<close>

definition decision_node_count :: "error + maze \<times> 'g \<Rightarrow> nat option" where
  "decision_node_count r =
     (case r of Inl e \<Rightarrow> None | Inr (m, g) \<Rightarrow> Some (length (decision_nodes_of m)))"

text \<open>The number of cells with at least two open sides.\<close>

definition corridor_count :: "maze \<Rightarrow> nat" where
  "corridor_count m = length (filter (\<lambda>p. 2 \<le> opening_count (grid m p)) (all_coords m))"

section \<open>core/models.py, core/rules.py, core/state.py\<close>

record value_dimensions =
  empathy :: int
  integrity :: int
  courage :: int
  responsibility :: int
  independence :: int

definition zero_values :: value_dimensions where
  "zero_values = \<lparr> empathy = 0, integrity = 0, courage = 0, responsibility = 0, independence = 0 \<rparr>"

text \<open>Every field of \<^verbatim>\<open>ValueDimensions\<close> is declared with \<^verbatim>\<open>ge=-999, le=999\<close>.\<close>

definition valid_values :: "value_dimensions \<Rightarrow> bool" where
  "valid_values v =
     (list_all (\<lambda>x. - 999 \<le> x \<and> x \<le> 999)
        [empathy v, integrity v, courage v, responsibility v, independence v])"

text \<open>\<^verbatim>\<open>add_delta\<close> builds a new \<^verbatim>\<open>ValueDimensions\<close>; the constructor validates the fields.\<close>

definition add_delta :: "value_dimensions \<Rightarrow> value_dimensions \<Rightarrow> error + value_dimensions" where
  "add_delta v d =
     (let r = \<lparr> empathy = empathy v + empathy d, integrity = integrity v + integrity d,
                courage = courage v + courage d,
                responsibility = responsibility v + responsibility d,
                independence = independence v + independence d \<rparr>
      in if valid_values r then Inr r else Inl (ValueError ''validation error for ValueDimensions''))"

record question =
  q_id :: string
  prompt :: string
  options :: "string list"
  difficulty :: real
  tags :: "string list option"

record answer =
  choice_id :: "int option"
  free_text :: "string option"

text \<open>\<^verbatim>\<open>is_empty\<close>: no choice, and the free text is \<^verbatim>\<open>None\<close> or the empty string.\<close>

definition is_empty :: "answer \<Rightarrow> bool" where
  "is_empty a = (choice_id a = None \<and> (free_text a = None \<or> free_text a = Some []))"

record review =
  growth_delta :: int
  match_score :: real
  feedback :: string

record decision_record =
  dr_question :: question
  dr_answer :: answer
  dr_review :: review
  age_at_decision :: int
  stage_at_decision :: string

type_synonym voices = "(string \<times> string) list"

record growth_record =
  gr_question_id :: string
  gr_prompt :: string
  gr_age :: int
  gr_stage :: string
  gr_value_delta :: value_dimensions
  perspectives :: voices
  gr_notes :: "string option"

text \<open>
  \<^verbatim>\<open>compute_stage_by_age\<close>: the first range of \<^verbatim>\<open>STAGE_RANGES\<close> that holds the age,
  \<^verbatim>\<open>"senior"\<close> when none does.
\<close>

definition STAGE_RANGES :: "(string \<times> int \<times> int) list" where
  "STAGE_RANGES =
     [(''child'', 0, 9), (''preteen'', 10, 12), (''teen'', 13, 17), (''young_adult'', 18, 24),
      (''adult'', 25, 39), (''mature'', 40, 59), (''senior'', 60, 120)]"

definition compute_stage_by_age :: "int \<Rightarrow> string" where
  "compute_stage_by_age a =
     (case filter (\<lambda>(st, lo, hi). lo \<le> a \<and> a \<le> hi) STAGE_RANGES of
        [] \<Rightarrow> ''senior''
      | (st, lo, hi) # rest \<Rightarrow> st)"

text \<open>A trap is the dictionary \<^verbatim>\<open>place_trap\<close> builds.\<close>

record trap =
  trap_type :: string
  trap_x :: int
  trap_y :: int
  placed_at :: real
  reveal_at :: real
  expires_at :: real

text \<open>
  \<^verbatim>\<open>GameState\<close>. Timestamps are the floats of \<^verbatim>\<open>time.time()\<close>, taken as exact reals.
  The attributes that \<^verbatim>\<open>GameState.__init__\<close> does not assign (the shield and dissolve
  attributes, which the controller adds with \<^verbatim>\<open>hasattr\<close> checks) are options: \<open>None\<close> is
  an attribute that does not exist, and \<^verbatim>\<open>getattr(state, name, default)\<close> reads the default
  then. \<open>shield_active_until\<close> is \<open>Some None\<close> when the attribute exists and holds
  \<^verbatim>\<open>None\<close>. For \<open>ally_dissolve_last_bonus_ts\<close> a missing attribute and the value
  \<^verbatim>\<open>None\<close> are both \<open>None\<close>: the source treats them alike. The dictionary
  \<open>dissolved_nodes\<close> is an association list in insertion order.
\<close>

record game_state =
  age :: int
  stage :: string
  history :: "decision_record list"
  state_seed :: int
  total_growth :: int
  hero_health :: int
  value_dims :: value_dimensions
  growth_history :: "growth_record list"
  jump_charges :: int
  jump_bonus_awarded :: int
  ally_jump_charges :: int
  ally_last_jump_bonus_ts :: "real option"
  ally_freeze_charges :: int
  ally_freeze_initial_bonus_awarded :: bool
  ally_freeze_last_bonus_ts :: "real option"
  ally_expand_charges :: int
  ally_expand_initial_bonus_awarded :: bool
  ally_expand_last_bonus_ts :: "real option"
  ally_lift_charges :: int
  ally_lift_initial_bonus_awarded :: bool
  ally_lift_last_bonus_ts :: "real option"
  ally_blink_charges :: int
  ally_blink_last_bonus_ts :: "real option"
  ally_position :: "(int \<times> int) option"
  ally_trap_charges :: int
  ally_trap_last_bonus_ts :: "real option"
  traps :: "trap list"
  hero_escape_charges :: int
  hero_escape_last_age :: int
  active_decisions :: "(int \<times> int) set"
  current_position :: "int \<times> int"
  visited_nodes :: "(int \<times> int) set"
  shield_charges :: "int option"
  shield_last_age :: "int option"
  shield_active_until :: "real option option"
  ally_dissolve_charges :: "int option"
  ally_dissolve_last_bonus_ts :: "real option"
  ally_dissolve_max_charges :: "int option"
  dissolved_nodes :: "((int \<times> int) \<times> real) list option"

text \<open>\<^verbatim>\<open>GameState()\<close> without save data, built at time \<open>now\<close>.\<close>

definition new_game_state :: "real \<Rightarrow> game_state" where
  "new_game_state now =
     \<lparr> age = 10, stage = ''preteen'', history = [], state_seed = 0, total_growth = 0,
       hero_health = 100, value_dims = zero_values, growth_history = [],
       jump_charges = 2, jump_bonus_awarded = 0,
       ally_jump_charges = 2, ally_last_jump_bonus_ts = Some now,
       ally_freeze_charges = 0, ally_freeze_initial_bonus_awarded = False,
       ally_freeze_last_bonus_ts = Some now,
       ally_expand_charges = 0, ally_expand_initial_bonus_awarded = False,
       ally_expand_last_bonus_ts = Some now,
       ally_lift_charges = 0, ally_lift_initial_bonus_awarded = False,
       ally_lift_last_bonus_ts = Some now,
       ally_blink_charges = 1, ally_blink_last_bonus_ts = Some now,
       ally_position = None,
       ally_trap_charges = 1, ally_trap_last_bonus_ts = Some now,
       traps = [], hero_escape_charges = 0, hero_escape_last_age = 0,
       active_decisions = {}, current_position = (0, 0), visited_nodes = {},
       shield_charges = None, shield_last_age = None, shield_active_until = None,
       ally_dissolve_charges = None, ally_dissolve_last_bonus_ts = None,
       ally_dissolve_max_charges = None, dissolved_nodes = None \<rparr>"

definition apply_growth :: "int \<Rightarrow> game_state \<Rightarrow> game_state" where
  "apply_growth d s =
     (let a = age s + d; a' = (if a < 10 then 10 else a)
      in s\<lparr>age := a', total_growth := total_growth s + d, stage := compute_stage_by_age a'\<rparr>)"

definition get_history_tags :: "game_state \<Rightarrow> string list" where
  "get_history_tags s =
     concat (map (\<lambda>r. case tags (dr_question r) of None \<Rightarrow> [] | Some ts \<Rightarrow> ts) (history s))"

text \<open>\<^verbatim>\<open>mark_node_visited\<close> returns whether the node is new, and the state.\<close>

definition mark_node_visited :: "int \<times> int \<Rightarrow> game_state \<Rightarrow> bool \<times> game_state" where
  "mark_node_visited node s =
     (if node \<in> visited_nodes s then (False, s)
      else (True, s\<lparr>visited_nodes := insert node (visited_nodes s)\<rparr>))"

record settings =
  maze_width :: int
  maze_height :: int
  start_age :: int
  goal_age :: int

section \<open>server/controller.py: the controller and its regeneration passes\<close>

text \<open>
  \<^verbatim>\<open>GameController\<close>. \<open>active_questions\<close> is the dictionary \<^verbatim>\<open>_active_questions\<close>.
  \<open>saved\<close> is the history of the snapshot file, newest first: \<^verbatim>\<open>save.save_now\<close> adds an
  entry. A snapshot is recorded as the state it was taken from (\<^verbatim>\<open>SaveData\<close> keeps the
  persisted fields of it, which exclude the position, the visited nodes and the dissolve
  attributes). \<open>rng_state\<close> is the state of the module generator. The lock and the cached
  wall grid of the renderer are not modelled. Every entry point takes the time \<open>now\<close> that
  its calls of \<^verbatim>\<open>time.time()\<close> read, as one instant.
\<close>

record 'g controller =
  settings :: settings
  state :: game_state
  maze :: maze
  active_questions :: "(string \<times> question) list"
  saved :: "game_state list"
  rng_state :: 'g

fun dict_set :: "'k \<Rightarrow> 'v \<Rightarrow> ('k \<times> 'v) list \<Rightarrow> ('k \<times> 'v) list" where
  "dict_set k v [] = [(k, v)]"
| "dict_set k v ((k', v') # r) = (if k = k' then (k, v) # r else (k', v') # dict_set k v r)"

definition dict_del :: "'k \<Rightarrow> ('k \<times> 'v) list \<Rightarrow> ('k \<times> 'v) list" where
  "dict_del k xs = filter (\<lambda>kv. fst kv \<noteq> k) xs"

text \<open>
  \<^verbatim>\<open>GameState.to_save_data\<close> reads \<^verbatim>\<open>self.shield_charges\<close>, \<^verbatim>\<open>self.shield_last_age\<close> and
  \<^verbatim>\<open>self.shield_active_until\<close>; where one of them was never assigned it raises, and
  \<^verbatim>\<open>save_now\<close> catches the exception, prints it and writes nothing. The field constraints
  of \<^verbatim>\<open>SaveData\<close> and the failures of the file system are not modelled.
\<close>

definition to_save_data :: "game_state \<Rightarrow> game_state option" where
  "to_save_data s =
     (if shield_charges s \<noteq> None \<and> shield_last_age s \<noteq> None \<and> shield_active_until s \<noteq> None
      then Some s else None)"

definition save_now :: "'g controller \<Rightarrow> 'g controller" where
  "save_now c =
     (case to_save_data (state c) of None \<Rightarrow> c | Some d \<Rightarrow> c\<lparr>saved := d # saved c\<rparr>)"

subsection \<open>Time-gated regeneration\<close>

definition replenish_ally_jump_charges :: "real \<Rightarrow> game_state \<Rightarrow> game_state" where
  "replenish_ally_jump_charges now s =
     (case ally_last_jump_bonus_ts s of
        None \<Rightarrow> s\<lparr>ally_last_jump_bonus_ts := Some now\<rparr>
      | Some last_ts \<Rightarrow>
          (let elapsed = now - last_ts; interval = 15; cap = 4
           in if elapsed \<ge> interval then
                (let bonus = \<lfloor>elapsed / interval\<rfloor>; current = max 0 (ally_jump_charges s)
                 in s\<lparr>ally_jump_charges := min cap (current + bonus),
                      ally_last_jump_bonus_ts := Some (last_ts + of_int bonus * interval)\<rparr>)
              else s))"

definition replenish_freeze_charges :: "real \<Rightarrow> game_state \<Rightarrow> game_state" where
  "replenish_freeze_charges now s =
     (case ally_freeze_last_bonus_ts s of
        None \<Rightarrow> s\<lparr>ally_freeze_last_bonus_ts := Some now\<rparr>
      | Some last_ts \<Rightarrow>
          if \<not> ally_freeze_initial_bonus_awarded s then
            (if now - last_ts \<ge> 10 then
               s\<lparr>ally_freeze_charges := min 3 (max 0 (ally_freeze_charges s) + 2),
                 ally_freeze_initial_bonus_awarded := True,
                 ally_freeze_last_bonus_ts := Some now\<rparr>
             else s)
          else
            (let elapsed = now - last_ts
             in if elapsed \<ge> 30 then
                  (let gained = \<lfloor>elapsed / 30\<rfloor>;
                       s1 = (if gained > 0
                             then s\<lparr>ally_freeze_charges := min 3 (max 0 (ally_freeze_charges s) + gained)\<rparr>
                             else s)
                   in s1\<lparr>ally_freeze_last_bonus_ts := Some (last_ts + of_int gained * 30)\<rparr>)
                else s))"

definition replenish_expand_charges :: "real \<Rightarrow> game_state \<Rightarrow> game_state" where
  "replenish_expand_charges now s =
     (case ally_expand_last_bonus_ts s of
        None \<Rightarrow> s\<lparr>ally_expand_last_bonus_ts := Some now\<rparr>
      | Some last_ts \<Rightarrow>
          if \<not> ally_expand_initial_bonus_awarded s then
            (if now - last_ts \<ge> 10 then
               s\<lparr>ally_expand_charges := min 5 (max 0 (ally_expand_charges s) + 2),
                 ally_expand_initial_bonus_awarded := True,
                 ally_expand_last_bonus_ts := Some now\<rparr>
             else s)
          else
            (let elapsed = now - last_ts
             in if elapsed \<ge> 20 then
                  (let cycles = \<lfloor>elapsed / 20\<rfloor>
                   in if cycles > 0 then
                        s\<lparr>ally_expand_charges := min 5 (max 0 (ally_expand_charges s) + cycles * 2),
                          ally_expand_last_bonus_ts := Some (last_ts + of_int cycles * 20)\<rparr>
                      else s)
                else s))"

definition replenish_dissolve_charges :: "real \<Rightarrow> game_state \<Rightarrow> game_state" where
  "replenish_dissolve_charges now s =
     (case ally_dissolve_last_bonus_ts s of
        None \<Rightarrow> s\<lparr>ally_dissolve_last_bonus_ts := Some now\<rparr>
      | Some last_ts \<Rightarrow>
          (let interval = 15;
               cap = (case ally_dissolve_max_charges s of None \<Rightarrow> 2 | Some m \<Rightarrow> m);
               elapsed = now - last_ts
           in if elapsed \<ge> interval then
                (let gained = \<lfloor>elapsed / interval\<rfloor>;
                     current = max 0 (case ally_dissolve_charges s of None \<Rightarrow> 1 | Some n \<Rightarrow> n)
                 in s\<lparr>ally_dissolve_charges := Some (min cap (current + gained)),
                      ally_dissolve_last_bonus_ts := Some (last_ts + of_int gained * interval)\<rparr>)
              else s))"

definition replenish_blink_charges :: "real \<Rightarrow> game_state \<Rightarrow> game_state" where
  "replenish_blink_charges now s =
     (case ally_blink_last_bonus_ts s of
        None \<Rightarrow> s\<lparr>ally_blink_last_bonus_ts := Some now\<rparr>
      | Some last_ts \<Rightarrow>
          (let interval = 20; cap = 2; elapsed = now - last_ts
           in if elapsed \<ge> interval then
                (let gained = \<lfloor>elapsed / interval\<rfloor>; current = max 0 (ally_blink_charges s)
                 in s\<lparr>ally_blink_charges := min cap (current + gained),
                      ally_blink_last_bonus_ts := Some (last_ts + of_int gained * interval)\<rparr>)
              else s))"

definition replenish_lift_charges :: "real \<Rightarrow> game_state \<Rightarrow> game_state" where
  "replenish_lift_charges now s =
     (case ally_lift_last_bonus_ts s of
        None \<Rightarrow> s\<lparr>ally_lift_last_bonus_ts := Some now\<rparr>
      | Some last_ts \<Rightarrow>
          if \<not> ally_lift_initial_bonus_awarded s then
            (if now - last_ts < 10 then s
             else s\<lparr>ally_lift_charges := min 2 (max 0 (ally_lift_charges s) + 1),
                    ally_lift_initial_bonus_awarded := True,
                    ally_lift_last_bonus_ts := Some now\<rparr>)
          else
            (let elapsed = now - last_ts
             in if elapsed \<ge> 20 then
                  (let gained = \<lfloor>elapsed / 20\<rfloor>
                   in if gained > 0 then
                        s\<lparr>ally_lift_charges := min 2 (max 0 (ally_lift_charges s) + gained),
                          ally_lift_last_bonus_ts := Some (last_ts + of_int gained * 20)\<rparr>
                      else s)
                else s))"

definition replenish_trap_charges :: "real \<Rightarrow> game_state \<Rightarrow> game_state" where
  "replenish_trap_charges now s =
     (case ally_trap_last_bonus_ts s of
        None \<Rightarrow> s\<lparr>ally_trap_last_bonus_ts := Some now\<rparr>
      | Some last_ts \<Rightarrow>
          (let interval = 20; cap = 2; elapsed = now - last_ts
           in if elapsed \<ge> interval then
                (let gained = \<lfloor>elapsed / interval\<rfloor>; current = max 0 (ally_trap_charges s)
                 in s\<lparr>ally_trap_charges := min cap (current + gained),
                      ally_trap_last_bonus_ts := Some (last_ts + of_int gained * interval)\<rparr>)
              else s))"

text \<open>
  \<^verbatim>\<open>_expire_dissolved_nodes\<close>: the entries that are due leave the dictionary, and those
  inside the maze return to the active set.
\<close>

definition expire_dissolved_nodes :: "real \<Rightarrow> maze \<Rightarrow> game_state \<Rightarrow> game_state" where
  "expire_dissolved_nodes now m s =
     (case dissolved_nodes s of
        None \<Rightarrow> s
      | Some dissolved \<Rightarrow>
          if dissolved = [] then s
          else
            (let to_delete = map fst (filter (\<lambda>kv. snd kv \<le> now) dissolved)
             in s\<lparr>dissolved_nodes := Some (filter (\<lambda>kv. fst kv \<notin> set to_delete) dissolved),
                  active_decisions := active_decisions s \<union> {k \<in> set to_delete. in_bounds m k}\<rparr>))"

definition expire_traps :: "real \<Rightarrow> game_state \<Rightarrow> game_state" where
  "expire_traps now s =
     (if traps s = [] then s
      else s\<lparr>traps := filter (\<lambda>t. \<not> (expires_at t \<noteq> 0 \<and> expires_at t \<le> now)) (traps s)\<rparr>)"

subsection \<open>Age-gated grants\<close>

definition grant_jump_bonus_if_needed :: "settings \<Rightarrow> game_state \<Rightarrow> game_state" where
  "grant_jump_bonus_if_needed st s =
     (let expected_bonus = max 0 ((age s - start_age st) div 5);
          bonus_delta = expected_bonus - jump_bonus_awarded s
      in if bonus_delta > 0 then
           s\<lparr>jump_charges := max 0 (jump_charges s) + bonus_delta,
             jump_bonus_awarded := expected_bonus\<rparr>
         else s)"

text \<open>
  The \<^verbatim>\<open>while current_age >= last_age + 10\<close> loop of \<^verbatim>\<open>_grant_escape_by_age\<close>, on the
  pair of the charges and the checkpoint.
\<close>

function escape_loop :: "int \<Rightarrow> int \<Rightarrow> int \<Rightarrow> int \<times> int" where
  "escape_loop current_age last_age charges =
     (if current_age \<ge> last_age + 10
      then escape_loop current_age (last_age + 10) (max 0 charges + 1)
      else (charges, last_age))"
  by pat_completeness auto
termination
  by (relation "measure (\<lambda>(a, l, c). nat (a - l))") auto

declare escape_loop.simps [simp del]

definition grant_escape_by_age :: "game_state \<Rightarrow> game_state" where
  "grant_escape_by_age s =
     (let (charges, last_age) = escape_loop (age s) (hero_escape_last_age s) (hero_escape_charges s)
      in s\<lparr>hero_escape_charges := charges, hero_escape_last_age := last_age\<rparr>)"

text \<open>
  The loop of \<^verbatim>\<open>_grant_shield_bonus_if_needed\<close>. The charges are an attribute that may not
  exist: the loop assigns it only when it runs.
\<close>

function shield_loop :: "int \<Rightarrow> int \<Rightarrow> int option \<Rightarrow> int option \<times> int" where
  "shield_loop current_age last_age charges =
     (if current_age \<ge> last_age + 20
      then shield_loop current_age (last_age + 20)
             (Some (min 1 (max 0 (case charges of None \<Rightarrow> 0 | Some n \<Rightarrow> n) + 1)))
      else (charges, last_age))"
  by pat_completeness auto
termination
  by (relation "measure (\<lambda>(a, l, c). nat (a - l))") auto

declare shield_loop.simps [simp del]

definition grant_shield_bonus_if_needed :: "game_state \<Rightarrow> game_state" where
  "grant_shield_bonus_if_needed s =
     (let (charges, last_age) =
            shield_loop (age s) (case shield_last_age s of None \<Rightarrow> 0 | Some a \<Rightarrow> a) (shield_charges s)
      in s\<lparr>shield_charges := charges, shield_last_age := Some last_age\<rparr>)"

subsection \<open>The sync helpers, construction and the state payload\<close>

text \<open>
  The \<^verbatim>\<open>hasattr\<close> checks of the sync helpers for attributes that \<^verbatim>\<open>GameState.__init__\<close>
  always assigns are always true and are left out.
\<close>

definition sync_jump_charges_with_state :: "settings \<Rightarrow> game_state \<Rightarrow> game_state" where
  "sync_jump_charges_with_state st s =
     grant_jump_bonus_if_needed st (s\<lparr>jump_charges := max 0 (jump_charges s)\<rparr>)"

definition sync_trap_state :: "real \<Rightarrow> game_state \<Rightarrow> game_state" where
  "sync_trap_state now s =
     grant_shield_bonus_if_needed
       (case ally_trap_last_bonus_ts s of
          None \<Rightarrow> s\<lparr>ally_trap_last_bonus_ts := Some now\<rparr>
        | Some t \<Rightarrow> s)"

definition sync_ally_state :: "real \<Rightarrow> game_state \<Rightarrow> game_state" where
  "sync_ally_state now s =
     sync_trap_state now
       (replenish_ally_jump_charges now
          (case ally_last_jump_bonus_ts s of
             None \<Rightarrow> s\<lparr>ally_last_jump_bonus_ts := Some now\<rparr>
           | Some t \<Rightarrow> s))"

definition sync_shield_state :: "real \<Rightarrow> game_state \<Rightarrow> game_state" where
  "sync_shield_state now s =
     grant_shield_bonus_if_needed
       (s\<lparr>shield_charges := Some (max 1 (case shield_charges s of None \<Rightarrow> 1 | Some n \<Rightarrow> n)),
          shield_last_age := Some (case shield_last_age s of None \<Rightarrow> 0 | Some a \<Rightarrow> a),
          shield_active_until :=
            Some (case shield_active_until s of
                    None \<Rightarrow> None
                  | Some None \<Rightarrow> None
                  | Some (Some t) \<Rightarrow> if t \<noteq> 0 \<and> t \<le> now then None else Some t)\<rparr>)"

definition sync_blink_state :: "real \<Rightarrow> maze \<Rightarrow> game_state \<Rightarrow> game_state" where
  "sync_blink_state now m s =
     (let s1 = (case ally_blink_last_bonus_ts s of
                  None \<Rightarrow> s\<lparr>ally_blink_last_bonus_ts := Some now\<rparr>
                | Some t \<Rightarrow> s)
      in case ally_position s1 of
           None \<Rightarrow>
             s1\<lparr>ally_position :=
                  Some (min (width m - 1) (fst (current_position s1) + 1), snd (current_position s1))\<rparr>
         | Some a \<Rightarrow> s1)"

definition sync_freeze_state :: "real \<Rightarrow> game_state \<Rightarrow> game_state" where
  "sync_freeze_state now s =
     replenish_freeze_charges now
       (case ally_freeze_last_bonus_ts s of
          None \<Rightarrow> s\<lparr>ally_freeze_last_bonus_ts := Some now\<rparr>
        | Some t \<Rightarrow> s)"

definition sync_expand_state :: "real \<Rightarrow> game_state \<Rightarrow> game_state" where
  "sync_expand_state now s =
     replenish_expand_charges now
       (case ally_expand_last_bonus_ts s of
          None \<Rightarrow> s\<lparr>ally_expand_last_bonus_ts := Some now\<rparr>
        | Some t \<Rightarrow> s)"

definition sync_dissolve_state :: "real \<Rightarrow> maze \<Rightarrow> game_state \<Rightarrow> game_state" where
  "sync_dissolve_state now m s =
     replenish_dissolve_charges now
       (expire_dissolved_nodes now m
          (s\<lparr>ally_dissolve_charges := Some (case ally_dissolve_charges s of None \<Rightarrow> 1 | Some n \<Rightarrow> n),
             ally_dissolve_last_bonus_ts :=
               Some (case ally_dissolve_last_bonus_ts s of None \<Rightarrow> now | Some t \<Rightarrow> t),
             ally_dissolve_max_charges :=
               Some (case ally_dissolve_max_charges s of None \<Rightarrow> 2 | Some n \<Rightarrow> n),
             dissolved_nodes := Some (case dissolved_nodes s of None \<Rightarrow> [] | Some d \<Rightarrow> d)\<rparr>))"

definition sync_escape_state :: "game_state \<Rightarrow> game_state" where
  "sync_escape_state s = grant_escape_by_age s"

text \<open>
  \<^verbatim>\<open>_init_active_decisions\<close>: the candidates are the coordinates of all cells of the grid
  that are not in \<^verbatim>\<open>visited_nodes\<close>, in grid order.
\<close>

definition init_candidates :: "maze \<Rightarrow> game_state \<Rightarrow> (int \<times> int) list" where
  "init_candidates m s = filter (\<lambda>p. p \<notin> visited_nodes s) (all_coords m)"

definition init_active_decisions :: "'g rng \<Rightarrow> 'g controller \<Rightarrow> 'g controller" where
  "init_active_decisions R c =
     (let candidates = init_candidates (maze c) (state c);
          (shuffled, g') = rng_shuffle R (rng_state c) candidates;
          count = min 8 (length candidates)
      in c\<lparr>state := (state c)\<lparr>active_decisions := set (take count shuffled)\<rparr>,
           rng_state := g'\<rparr>)"

text \<open>
  \<^verbatim>\<open>GameController.__init__\<close> for the given settings, state and maze; \<open>disk\<close> is the
  snapshot history and \<open>g\<close> the state of the module generator at that moment.
\<close>

definition init_controller ::
  "'g rng \<Rightarrow> real \<Rightarrow> settings \<Rightarrow> game_state \<Rightarrow> maze \<Rightarrow> game_state list \<Rightarrow> 'g \<Rightarrow> 'g controller"
where
  "init_controller R now st gs m disk g =
     (let c0 = \<lparr> settings = st, state = gs, maze = m, active_questions = [], saved = disk,
                 rng_state = g \<rparr>;
          c1 = (if active_decisions gs = {} then init_active_decisions R c0 else c0);
          s1 = sync_jump_charges_with_state st (state c1);
          s2 = sync_ally_state now s1;
          s3 = sync_freeze_state now s2;
          s4 = sync_expand_state now s3;
          s5 = replenish_lift_charges now (replenish_lift_charges now s4);
          s6 = sync_dissolve_state now m s5;
          s7 = expire_dissolved_nodes now m (replenish_dissolve_charges now s6);
          s8 = sync_trap_state now s7;
          s9 = expire_traps now (replenish_trap_charges now s8);
          s10 = replenish_blink_charges now (sync_blink_state now m s9);
          s11 = sync_shield_state now (sync_escape_state s10)
      in c1\<lparr>state := s11\<rparr>)"

text \<open>
  \<^verbatim>\<open>get_state_payload\<close> runs the passes below and then builds its dictionary from the
  state; the model returns the controller, whose state is what the dictionary shows.
\<close>

definition get_state_payload :: "real \<Rightarrow> 'g controller \<Rightarrow> 'g controller" where
  "get_state_payload now c =
     (let s1 = replenish_ally_jump_charges now (state c);
          s2 = replenish_freeze_charges now s1;
          s3 = replenish_expand_charges now s2;
          s4 = replenish_lift_charges now s3;
          s5 = replenish_dissolve_charges now s4;
          s6 = expire_dissolved_nodes now (maze c) s5;
          s7 = replenish_trap_charges now s6;
          s8 = expire_traps now s7;
          s9 = sync_shield_state now s8
      in c\<lparr>state := s9\<rparr>)"

section \<open>server/controller.py: the entry points\<close>

text \<open>
  An entry point returns its reply, or the exception it raised, together with the
  controller as the call left it: what was assigned before a \<^verbatim>\<open>raise\<close> stays assigned.
\<close>

subsection \<open>Strings\<close>

text \<open>\<^verbatim>\<open>str.lower\<close> on ASCII letters.\<close>

definition lower_char :: "char \<Rightarrow> char" where
  "lower_char ch =
     (let n = (of_char ch :: nat) in if 65 \<le> n \<and> n \<le> 90 then char_of (n + 32) else ch)"

definition lower :: "string \<Rightarrow> string" where
  "lower str = map lower_char str"

text \<open>The keys of \<^verbatim>\<open>DIR_TO_DELTA\<close>.\<close>

definition dir_of_string :: "string \<Rightarrow> direction option" where
  "dir_of_string str =
     (if str = ''north'' then Some North
      else if str = ''south'' then Some South
      else if str = ''east'' then Some East
      else if str = ''west'' then Some West
      else None)"

text \<open>The decimal digits of a number, for the f-string of the built-in question id.\<close>

function string_of_nat :: "nat \<Rightarrow> string" where
  "string_of_nat n =
     (if n < 10 then [char_of (48 + n)]
      else string_of_nat (n div 10) @ [char_of (48 + n mod 10)])"
  by pat_completeness auto
termination
  by (relation "measure id") auto

declare string_of_nat.simps [simp del]

definition string_of_int :: "int \<Rightarrow> string" where
  "string_of_int i = (if i < 0 then ''-'' @ string_of_nat (nat (- i)) else string_of_nat (nat i))"

text \<open>\<^verbatim>\<open>round\<close> of a float: to the nearest integer, a tie to the even one.\<close>

definition py_round :: "real \<Rightarrow> int" where
  "py_round x =
     (let f = \<lfloor>x\<rfloor>; r = x - of_int f
      in if r < 1 / 2 then f else if r > 1 / 2 then f + 1 else if even f then f else f + 1)"

subsection \<open>Reading the state, moving\<close>

definition direction_from_delta :: "int \<Rightarrow> int \<Rightarrow> direction" where
  "direction_from_delta dx dy =
     (if dx = 1 then East else if dx = - 1 then West else if dy = 1 then South else North)"

record trap_event =
  te_type :: string
  te_effect :: string
  te_amount :: int
  te_hero_health :: int
  te_shield_active :: bool

text \<open>\<^verbatim>\<open>_apply_trap_trigger\<close>: the first trap on the tile goes off.\<close>

definition apply_trap_trigger ::
  "'g rng \<Rightarrow> real \<Rightarrow> int \<Rightarrow> int \<Rightarrow> game_state \<Rightarrow> 'g \<Rightarrow> trap_event option \<times> game_state \<times> 'g"
where
  "apply_trap_trigger R now x y s g =
     (case find (\<lambda>t. trap_x t = x \<and> trap_y t = y) (traps s) of
        None \<Rightarrow> (None, s, g)
      | Some tr \<Rightarrow>
          (let s1 = s\<lparr>traps := remove1 tr (traps s)\<rparr>;
               (roll, g') = rng_random R g;
               damage_main = (trap_type tr = ''mine'');
               heal_main = (trap_type tr = ''medkit'');
               effect = (if (damage_main \<and> roll < 8 / 10) \<or> (heal_main \<and> roll \<ge> 8 / 10)
                         then ''damage'' else ''heal'');
               amount = (if effect = ''damage'' then 30 else 20);
               shield_active =
                 (case shield_active_until s1 of
                    Some (Some u) \<Rightarrow> u \<noteq> 0 \<and> u > now
                  | _ \<Rightarrow> False);
               s2 = (if \<not> shield_active then
                       s1\<lparr>hero_health :=
                            (if effect = ''damage'' then max 0 (hero_health s1 - amount)
                             else min 100 (hero_health s1 + amount))\<rparr>
                     else s1)
           in (Some \<lparr> te_type = trap_type tr, te_effect = effect, te_amount = amount,
                       te_hero_health = hero_health s2, te_shield_active = shield_active \<rparr>,
               s2, g')))"

datatype move_reply =
  MoveInvalid string
| MoveValid (decision_required: bool) (decision_node_hit: bool) (visited_before: bool)
    (trap_hit: "trap_event option")

definition move_player ::
  "'g rng \<Rightarrow> real \<Rightarrow> int \<Rightarrow> int \<Rightarrow> 'g controller \<Rightarrow> move_reply \<times> 'g controller" where
  "move_player R now target_x target_y c =
     (let s0 = expire_traps now (state c);
          c0 = c\<lparr>state := s0\<rparr>;
          (current_x, current_y) = current_position s0;
          dx = target_x - current_x;
          dy = target_y - current_y
      in if \<bar>dx\<bar> + \<bar>dy\<bar> \<noteq> 1 then (MoveInvalid ''invalid_step'', c0)
         else
           (let direction = direction_from_delta dx dy
            in if get_cell (maze c) current_x current_y = None
                  \<or> get_cell (maze c) target_x target_y = None
               then (MoveInvalid ''out_of_bounds'', c0)
               else if \<not> can_move (maze c) (current_x, current_y) direction
               then (MoveInvalid ''blocked'', c0)
               else
                 (let s1 = s0\<lparr>current_position := (target_x, target_y)\<rparr>;
                      required = ((target_x, target_y) \<in> active_decisions s1);
                      (first_visit, s2) =
                        (if required then mark_node_visited (target_x, target_y) s1
                         else (False, s1));
                      (event, s3, g') = apply_trap_trigger R now target_x target_y s2 (rng_state c)
                  in (MoveValid (required \<and> first_visit) required
                        (if required then \<not> first_visit else False) event,
                      c\<lparr>state := s3, rng_state := g'\<rparr>))))"

record mutation =
  mut_x :: int
  mut_y :: int
  mut_direction :: string
  mut_action :: string

definition apply_wall_mutation :: "mutation \<Rightarrow> maze \<Rightarrow> bool \<times> maze" where
  "apply_wall_mutation mu m =
     (case dir_of_string (mut_direction mu) of
        None \<Rightarrow> (False, m)
      | Some d \<Rightarrow>
          if mut_action mu \<noteq> ''open'' \<and> mut_action mu \<noteq> ''close'' then (False, m)
          else
            (case get_cell m (mut_x mu) (mut_y mu) of
               None \<Rightarrow> (False, m)
             | Some cell \<Rightarrow>
                 (let target_state = (mut_action mu = ''close'')
                  in if walls cell d = target_state then (False, m)
                     else
                       (let p = (mut_x mu, mut_y mu);
                            m1 = set_wall m p d target_state;
                            n = step_to p d
                        in (True,
                            if get_cell m1 (fst n) (snd n) \<noteq> None
                            then set_wall m1 n (opposite d) target_state else m1)))))"

fun apply_mutation_list :: "mutation list \<Rightarrow> bool \<Rightarrow> maze \<Rightarrow> bool \<times> maze" where
  "apply_mutation_list [] applied m = (applied, m)"
| "apply_mutation_list (mu # mus) applied m =
     (let (ok, m') = apply_wall_mutation mu m
      in apply_mutation_list mus (applied \<or> ok) m')"

definition apply_wall_mutations :: "mutation list \<Rightarrow> 'g controller \<Rightarrow> bool \<times> 'g controller" where
  "apply_wall_mutations mutations c =
     (if mutations = [] then (False, c)
      else (let (applied, m') = apply_mutation_list mutations False (maze c)
            in (applied, c\<lparr>maze := m'\<rparr>)))"

datatype jump_reply =
  JumpFailed string
| Jumped (jump_target: "int \<times> int") (jump_distance: int) (jump_decision_required: bool)

definition jump_player ::
  "'g rng \<Rightarrow> real \<Rightarrow> string \<Rightarrow> 'g controller \<Rightarrow> (error + jump_reply) \<times> 'g controller" where
  "jump_player R now direction c =
     (if direction = [] then (Inr (JumpFailed ''invalid_direction''), c)
      else
        (case dir_of_string (lower direction) of
           None \<Rightarrow> (Inr (JumpFailed ''invalid_direction''), c)
         | Some d \<Rightarrow>
             if jump_charges (state c) \<le> 0 then (Inr (JumpFailed ''no_charges''), c)
             else
               (let (dx, dy) = delta d;
                    (current_x, current_y) = current_position (state c);
                    candidates =
                      filter (\<lambda>(tx, ty, distance). in_bounds (maze c) (tx, ty)
                                \<and> get_cell (maze c) tx ty \<noteq> None)
                        (map (\<lambda>distance. (current_x + dx * distance, current_y + dy * distance, distance))
                           [2, 3])
                in if candidates = [] then (Inr (JumpFailed ''no_destination''), c)
                   else
                     (case choice R (rng_state c) candidates of
                        Inl e \<Rightarrow> (Inl e, c)
                      | Inr ((target_x, target_y, distance), g') \<Rightarrow>
                          if get_cell (maze c) target_x target_y = None
                          then (Inr (JumpFailed ''invalid_target''), c\<lparr>rng_state := g'\<rparr>)
                          else
                            (let s1 = (state c)\<lparr>current_position := (target_x, target_y),
                                                jump_charges := max 0 (jump_charges (state c) - 1)\<rparr>;
                                 required = ((target_x, target_y) \<in> active_decisions s1);
                                 (first_visit, s2) =
                                   (if required then mark_node_visited (target_x, target_y) s1
                                    else (False, s1));
                                 c1 = save_now (c\<lparr>state := s2, rng_state := g'\<rparr>)
                             in (Inr (Jumped (target_x, target_y) distance (required \<and> first_visit)),
                                 get_state_payload now c1))))))"

definition sync_position ::
  "real \<Rightarrow> int \<Rightarrow> int \<Rightarrow> 'g controller \<Rightarrow> (error + int \<times> int) \<times> 'g controller" where
  "sync_position now target_x target_y c =
     (if \<not> (0 \<le> target_x \<and> target_x < width (maze c) \<and> 0 \<le> target_y \<and> target_y < height (maze c))
      then (Inl (ValueError ''out_of_bounds''), c)
      else
        (let c1 = save_now (c\<lparr>state := (state c)\<lparr>current_position := (target_x, target_y)\<rparr>\<rparr>)
         in (Inr (target_x, target_y), get_state_payload now c1)))"

subsection \<open>Decisions\<close>

text \<open>
  The content provider is a collaborator outside the repository: a parameter, with one
  function for each call, each of which may raise. \<open>scenario_pool stage\<close> is the list
  of questions that \<^verbatim>\<open>scenario_store.pick_for_stage(stage)\<close> offers.
\<close>

record provider =
  get_question :: "int \<Rightarrow> string \<Rightarrow> string list \<Rightarrow> error + question"
  review_answer :: "int \<Rightarrow> question \<Rightarrow> answer \<Rightarrow> error + review"
  score_values :: "int \<Rightarrow> question \<Rightarrow> answer \<Rightarrow> error + value_dimensions option"
  feedback_voices :: "int \<Rightarrow> question \<Rightarrow> answer \<Rightarrow> error + voices option"
  scenario_pool :: "string \<Rightarrow> question list"

definition fallback_question ::
  "'g rng \<Rightarrow> provider \<Rightarrow> string \<Rightarrow> 'g \<Rightarrow> error + question \<times> 'g" where
  "fallback_question R P current_stage g =
     (let scenario_list = scenario_pool P current_stage
      in if scenario_list \<noteq> [] then choice R g scenario_list
         else
           (let (n, g') = rng_randint R g 1000 9999
            in Inr (\<lparr> q_id = ''local_'' @ current_stage @ ''_'' @ string_of_int n,
                       prompt = ''A friend asks you to break a rule to help them. What do you do?'',
                       options = [''Refuse'', ''Accept'', ''Seek help''],
                       difficulty = 1 / 2,
                       tags = Some [''responsibility'', ''integrity''] \<rparr>, g')))"

definition not_active_message :: string where
  "not_active_message = ''Current position is not an active decision node''"

definition start_decision ::
  "'g rng \<Rightarrow> provider \<Rightarrow> int \<Rightarrow> int \<Rightarrow> 'g controller \<Rightarrow> (error + question) \<times> 'g controller" where
  "start_decision R P x y c =
     (if (x, y) \<notin> active_decisions (state c) then (Inl (ValueError not_active_message), c)
      else
        (let c1 = c\<lparr>state := (state c)\<lparr>active_decisions := active_decisions (state c) - {(x, y)}\<rparr>\<rparr>;
             current_age = age (state c1);
             current_stage = stage (state c1);
             history_tags = get_history_tags (state c1);
             picked = (case get_question P current_age current_stage history_tags of
                         Inr q \<Rightarrow> Inr (q, rng_state c1)
                       | Inl e \<Rightarrow> fallback_question R P current_stage (rng_state c1))
         in case picked of
              Inl e \<Rightarrow> (Inl e, c1)
            | Inr (q, g') \<Rightarrow>
                (Inr q, c1\<lparr>active_questions := dict_set (q_id q) q (active_questions c1),
                           rng_state := g'\<rparr>)))"

text \<open>\<^verbatim>\<open>_build_value_delta\<close>: the tag-driven fallback for the five-value delta.\<close>

definition build_value_delta :: "question \<Rightarrow> review \<Rightarrow> value_dimensions" where
  "build_value_delta q rv =
     (let base = max (- 2) (min 2 (growth_delta rv));
          tgs = set (map lower (case tags q of None \<Rightarrow> [] | Some ts \<Rightarrow> ts));
          bump = (\<lambda>flag. if base > 0 \<and> flag then min 2 base
                         else if base < 0 \<and> flag then max (- 2) base else 0);
          vd = \<lparr> empathy = bump (''empathy'' \<in> tgs), integrity = bump (''integrity'' \<in> tgs),
                 courage = bump (''courage'' \<in> tgs),
                 responsibility = bump (''responsibility'' \<in> tgs),
                 independence = bump (''independence'' \<in> tgs) \<rparr>
      in if empathy vd = 0 \<and> integrity vd = 0 \<and> courage vd = 0 \<and> responsibility vd = 0
            \<and> independence vd = 0
         then vd\<lparr>responsibility := base\<rparr> else vd)"

record submit_reply =
  sr_question :: question
  sr_review :: review
  sr_value_delta :: value_dimensions
  sr_voices :: voices
  sr_game_complete :: bool

definition missing_answer_message :: string where
  "missing_answer_message = ''Missing decision answer''"

definition question_not_found_message :: string where
  "question_not_found_message = ''Question not found; please re-trigger decision.''"

text \<open>
  \<^verbatim>\<open>submit_decision\<close>. The text of the multi-voice feedback (\<^verbatim>\<open>_build_default_voices\<close> and
  \<^verbatim>\<open>_normalize_voices\<close>) is presentation content and is the parameter \<open>mk_voices\<close>, given
  the age, the question, the answer, the value delta and the provider's voices.
\<close>

definition submit_decision ::
  "provider \<Rightarrow> (int \<Rightarrow> question \<Rightarrow> answer \<Rightarrow> value_dimensions \<Rightarrow> voices option \<Rightarrow> voices) \<Rightarrow> real
     \<Rightarrow> string \<Rightarrow> int option \<Rightarrow> string option \<Rightarrow> 'g controller
     \<Rightarrow> (error + submit_reply) \<times> 'g controller" where
  "submit_decision P mk_voices now question_id choice_arg text_arg c =
     (let ans = \<lparr> choice_id = choice_arg, free_text = text_arg \<rparr>
      in if is_empty ans then (Inl (ValueError missing_answer_message), c)
         else
           (case map_of (active_questions c) question_id of
              None \<Rightarrow> (Inl (ValueError question_not_found_message), c)
            | Some q \<Rightarrow>
                (let current_age = age (state c)
                 in case review_answer P current_age q ans of
                      Inl e \<Rightarrow> (Inl e, c)
                    | Inr rv \<Rightarrow>
                       (case score_values P current_age q ans of
                          Inl e \<Rightarrow> (Inl e, c)
                        | Inr provider_values \<Rightarrow>
                           (case feedback_voices P current_age q ans of
                              Inl e \<Rightarrow> (Inl e, c)
                            | Inr provider_voices \<Rightarrow>
                               (let c1 = c\<lparr>active_questions := dict_del question_id (active_questions c)\<rparr>;
                                    s0 = state c1;
                                    record = \<lparr> dr_question = q, dr_answer = ans, dr_review = rv,
                                               age_at_decision = age s0, stage_at_decision = stage s0 \<rparr>;
                                    s1 = apply_growth (growth_delta rv) (s0\<lparr>history := history s0 @ [record]\<rparr>);
                                    vdelta = (case provider_values of
                                                Some v \<Rightarrow> v | None \<Rightarrow> build_value_delta q rv)
                                in case add_delta (value_dims s1) vdelta of
                                     Inl e \<Rightarrow> (Inl e, c1\<lparr>state := s1\<rparr>)
                                   | Inr vd \<Rightarrow>
                                      (let s2 = s1\<lparr>value_dims := vd\<rparr>;
                                           vs = mk_voices current_age q ans vdelta provider_voices;
                                           growth_rec =
                                             \<lparr> gr_question_id = q_id q, gr_prompt = prompt q,
                                               gr_age = age s2, gr_stage = stage s2,
                                               gr_value_delta = vdelta, perspectives = vs,
                                               gr_notes = None \<rparr>;
                                           s3 = s2\<lparr>growth_history := growth_history s2 @ [growth_rec]\<rparr>;
                                           s4 = grant_shield_bonus_if_needed
                                                  (grant_escape_by_age
                                                    (grant_jump_bonus_if_needed (settings c1) s3));
                                           c2 = save_now (c1\<lparr>state := s4\<rparr>);
                                           c3 = get_state_payload now c2
                                       in (Inr \<lparr> sr_question = q, sr_review = rv,
                                                 sr_value_delta = vdelta, sr_voices = vs,
                                                 sr_game_complete =
                                                   (age (state c3) \<ge> goal_age (settings c3)) \<rparr>,
                                           c3))))))))"

definition set_active_decisions :: "(int \<times> int) list \<Rightarrow> 'g controller \<Rightarrow> 'g controller" where
  "set_active_decisions coords c =
     (let filtered = filter (\<lambda>(x, y). 0 \<le> x \<and> x < width (maze c) \<and> 0 \<le> y \<and> y < height (maze c)) coords
      in save_now (c\<lparr>state := (state c)\<lparr>active_decisions := set filtered\<rparr>\<rparr>))"

subsection \<open>Ally and hero abilities\<close>

text \<open>
  \<^verbatim>\<open>start_lift\<close>. (The message of the second error has a character outside ASCII in the
  source and is shortened here.)
\<close>

definition start_lift ::
  "real \<Rightarrow> int \<times> int \<Rightarrow> int \<times> int \<Rightarrow> 'g controller \<Rightarrow> (error + int) \<times> 'g controller" where
  "start_lift now hero ally c =
     (let s1 = replenish_lift_charges now (state c);
          c1 = c\<lparr>state := s1\<rparr>;
          charges = ally_lift_charges s1
      in if charges \<le> 0 then (Inl (ValueError ''No lift charges left''), c1)
         else
           (let dx = fst hero - fst ally; dy = snd hero - snd ally
            in if \<not> ((dy = 0 \<and> \<bar>dx\<bar> \<le> 2) \<or> (dx = 0 \<and> \<bar>dy\<bar> \<le> 2))
               then (Inl (ValueError ''Out of reach''), c1)
               else
                 (let s2 = s1\<lparr>ally_lift_charges := max 0 (charges - 1),
                              ally_lift_last_bonus_ts := Some now\<rparr>
                  in (Inr (ally_lift_charges s2), save_now (c1\<lparr>state := s2\<rparr>)))))"

record throw_reply =
  tr_position :: "int \<times> int"
  tr_decision_required :: bool
  tr_hero_dead :: bool

text \<open>
  \<^verbatim>\<open>throw_lift\<close>: the hero is thrown 2 or 3 tiles from the ally's tile. A target outside
  the grid is stored as the position all the same, and the hero dies.
\<close>

definition throw_lift ::
  "'g rng \<Rightarrow> real \<Rightarrow> int \<times> int \<Rightarrow> string \<Rightarrow> 'g controller \<Rightarrow> (error + throw_reply) \<times> 'g controller"
where
  "throw_lift R now ally direction c =
     (case dir_of_string (lower direction) of
        None \<Rightarrow> (Inl (ValueError ''Invalid direction''), c)
      | Some d \<Rightarrow>
          (case choice R (rng_state c) [2, 3 :: int] of
             Inl e \<Rightarrow> (Inl e, c)
           | Inr (distance, g') \<Rightarrow>
               (let (ax, ay) = ally;
                    (dx, dy) = delta d;
                    tx = ax + dx * distance;
                    ty = ay + dy * distance;
                    inside = (0 \<le> tx \<and> tx < width (maze c) \<and> 0 \<le> ty \<and> ty < height (maze c));
                    target = (tx, ty);
                    target_cell = (if inside then get_cell (maze c) tx ty else None);
                    s0 = state c;
                    (hero_dead, required, first_visit, s1) =
                      (if target_cell \<noteq> None then
                         (let sa = s0\<lparr>current_position := target\<rparr>;
                              req = (target \<in> active_decisions sa)
                          in if req then
                               (let (fv, sb) = mark_node_visited target sa
                                in (False, True, fv,
                                    sb\<lparr>active_decisions := active_decisions sb - {target}\<rparr>))
                             else (False, False, False, sa))
                       else (True, False, False,
                             s0\<lparr>current_position := target, hero_health := 0\<rparr>));
                    c1 = save_now (c\<lparr>state := s1, rng_state := g'\<rparr>)
                in (Inr \<lparr> tr_position = target, tr_decision_required = (required \<and> first_visit),
                          tr_hero_dead = hero_dead \<rparr>,
                    get_state_payload now c1))))"

text \<open>
  \<^verbatim>\<open>dissolve_node\<close>. \<^verbatim>\<open>self.state.decision_nodes\<close> is an attribute that nothing assigns:
  the second operand of the \<^verbatim>\<open>and\<close> raises when the first one holds.
\<close>

definition dissolve_node ::
  "real \<Rightarrow> int \<Rightarrow> int \<Rightarrow> 'g controller \<Rightarrow> (error + int \<times> real) \<times> 'g controller" where
  "dissolve_node now x y c =
     (let s1 = replenish_dissolve_charges now (state c);
          c1 = c\<lparr>state := s1\<rparr>;
          charges = (case ally_dissolve_charges s1 of None \<Rightarrow> 0 | Some n \<Rightarrow> n)
      in if charges \<le> 0 then (Inl (ValueError ''No dissolve charges left''), c1)
         else if (x, y) \<notin> active_decisions s1 then (Inl (AttributeError ''decision_nodes''), c1)
         else
           (let restore_at = now + 15;
                dissolved = (case dissolved_nodes s1 of None \<Rightarrow> [] | Some d \<Rightarrow> d);
                s2 = s1\<lparr>dissolved_nodes := Some (dict_set (x, y) restore_at dissolved),
                        ally_dissolve_charges := Some (charges - 1),
                        ally_dissolve_last_bonus_ts := Some now,
                        active_decisions := active_decisions s1 - {(x, y)}\<rparr>;
                c2 = save_now (c1\<lparr>state := s2\<rparr>);
                c3 = get_state_payload now c2
            in (Inr (charges - 1, restore_at), c3)))"

definition place_trap ::
  "real \<Rightarrow> string \<Rightarrow> int \<Rightarrow> int \<Rightarrow> 'g controller \<Rightarrow> (error + int) \<times> 'g controller" where
  "place_trap now trap_type_arg x y c =
     (let ty = lower trap_type_arg
      in if ty \<noteq> ''mine'' \<and> ty \<noteq> ''medkit'' then (Inl (ValueError ''invalid trap type''), c)
         else
           (let s1 = replenish_trap_charges now (state c);
                c1 = c\<lparr>state := s1\<rparr>;
                charges = ally_trap_charges s1
            in if charges \<le> 0 then (Inl (ValueError ''No trap charges left''), c1)
               else if \<not> (0 \<le> x \<and> x < width (maze c) \<and> 0 \<le> y \<and> y < height (maze c))
               then (Inl (ValueError ''Out of bounds''), c1)
               else
                 (let kept = filter (\<lambda>t. \<not> (trap_x t = x \<and> trap_y t = y)) (traps s1);
                      tr = \<lparr> trap_type = ty, trap_x = x, trap_y = y, placed_at = now,
                             reveal_at = now + 30, expires_at = now + 60 \<rparr>;
                      s2 = s1\<lparr>traps := kept @ [tr], ally_trap_charges := charges - 1,
                              ally_trap_last_bonus_ts := Some now\<rparr>
                  in (Inr (ally_trap_charges s2), save_now (c1\<lparr>state := s2\<rparr>)))))"

definition apply_freeze_hit ::
  "real \<Rightarrow> real option \<Rightarrow> 'g controller \<Rightarrow> (int \<times> int) \<times> 'g controller" where
  "apply_freeze_hit now damage_percent c =
     (let s1 = sync_trap_state now (state c);
          percent = (case damage_percent of None \<Rightarrow> 5 | Some dp \<Rightarrow> max 0 dp);
          damage = max 1 (py_round (100 * (percent / 100)));
          new_health = max 0 (hero_health s1 - damage);
          s2 = s1\<lparr>hero_health := new_health\<rparr>
      in ((new_health, damage), save_now (c\<lparr>state := s2\<rparr>)))"

definition escape_hero ::
  "int option \<Rightarrow> int option \<Rightarrow> 'g controller \<Rightarrow> (error + int) \<times> 'g controller" where
  "escape_hero x y c =
     (let s1 = grant_escape_by_age (state c);
          c1 = c\<lparr>state := s1\<rparr>;
          charges = hero_escape_charges s1
      in if charges \<le> 0 then (Inl (ValueError ''No escape charges''), c1)
         else
           (let s2 = s1\<lparr>hero_escape_charges := charges - 1\<rparr>;
                s3 = (case (x, y) of
                        (Some x', Some y') \<Rightarrow>
                          if 0 \<le> x' \<and> x' < width (maze c) \<and> 0 \<le> y' \<and> y' < height (maze c)
                          then s2\<lparr>current_position := (x', y')\<rparr> else s2
                      | _ \<Rightarrow> s2)
            in (Inr (hero_escape_charges s3), save_now (c1\<lparr>state := s3\<rparr>))))"

definition activate_shield :: "real \<Rightarrow> 'g controller \<Rightarrow> (error + int) \<times> 'g controller" where
  "activate_shield now c =
     (let s1 = grant_shield_bonus_if_needed (state c);
          c1 = c\<lparr>state := s1\<rparr>;
          charges = (case shield_charges s1 of None \<Rightarrow> 0 | Some n \<Rightarrow> n)
      in if charges \<le> 0 then (Inl (ValueError ''No shield charges''), c1)
         else
           (let duration = 10;
                s2 = s1\<lparr>shield_charges := Some (charges - 1),
                        shield_active_until := Some (Some (now + duration))\<rparr>
            in (Inr (charges - 1), save_now (c1\<lparr>state := s2\<rparr>))))"

text \<open>The offsets of \<^verbatim>\<open>blink_ally\<close>: Manhattan distance 1 to 3, in the order of its loops.\<close>

definition blink_offsets :: "(int \<times> int) list" where
  "blink_offsets =
     filter (\<lambda>(dx, dy). \<not> (\<bar>dx\<bar> + \<bar>dy\<bar> = 0 \<or> \<bar>dx\<bar> + \<bar>dy\<bar> > 3))
       (concat (map (\<lambda>dx. map (\<lambda>dy. (dx, dy)) [- 3..3]) [- 3..3]))"

definition blink_ally ::
  "'g rng \<Rightarrow> real \<Rightarrow> 'g controller \<Rightarrow> (error + int \<times> int) \<times> 'g controller" where
  "blink_ally R now c =
     (let s1 = replenish_blink_charges now (state c);
          c1 = c\<lparr>state := s1\<rparr>;
          charges = ally_blink_charges s1
      in if charges \<le> 0 then (Inl (ValueError ''No blink charges left''), c1)
         else
           (let (hx, hy) = current_position s1;
                candidates =
                  filter (\<lambda>(tx, ty). 0 \<le> tx \<and> tx < width (maze c) \<and> 0 \<le> ty \<and> ty < height (maze c)
                                     \<and> get_cell (maze c) tx ty \<noteq> None)
                    (map (\<lambda>(dx, dy). (hx + dx, hy + dy)) blink_offsets)
            in if candidates = [] then (Inl (ValueError ''No valid blink target''), c1)
               else
                 (case choice R (rng_state c1) candidates of
                    Inl e \<Rightarrow> (Inl e, c1)
                  | Inr (target, g') \<Rightarrow>
                      (let s2 = s1\<lparr>ally_position := Some target,
                                   ally_blink_charges := charges - 1,
                                   ally_blink_last_bonus_ts := Some now\<rparr>
                       in (Inr target, save_now (c1\<lparr>state := s2, rng_state := g'\<rparr>))))))"

text \<open>
  \<^verbatim>\<open>restart_game\<close>: a fresh state, a maze from a fresh seed, the sync helpers, the
  active decisions, a snapshot, and the state payload.
\<close>

definition restart_game :: "'g rng \<Rightarrow> real \<Rightarrow> 'g controller \<Rightarrow> (error + unit) \<times> 'g controller" where
  "restart_game R now c =
     (let st = settings c;
          ns0 = (new_game_state now)\<lparr>age := start_age st, stage := compute_stage_by_age (start_age st)\<rparr>;
          (sd, g1) = rng_randint R (rng_state c) 1 999999
      in case generate_maze R g1 (maze_width st) (maze_height st) (Some sd) of
           Inl e \<Rightarrow> (Inl e, c\<lparr>rng_state := g1\<rparr>)
         | Inr (m, g2) \<Rightarrow>
             (let ns1 = ns0\<lparr>state_seed := seed m, current_position := start_pos m,
                           ally_position := Some (min (width m - 1) (fst (start_pos m) + 1), snd (start_pos m))\<rparr>;
                  s1 = sync_jump_charges_with_state st ns1;
                  s2 = sync_ally_state now s1;
                  s3 = sync_freeze_state now s2;
                  s4 = sync_expand_state now s3;
                  s5 = replenish_lift_charges now s4;
                  s6 = sync_escape_state s5;
                  c1 = init_active_decisions R (c\<lparr>maze := m, state := s6, rng_state := g2\<rparr>);
                  c2 = save_now c1
              in (Inr (), get_state_payload now c2)))"

section \<open>Sample inputs\<close>

text \<open>
  A controller on which the entry points can be evaluated: the grid of one cell, the
  default ages, a fresh state at time 0, the sample generator.
\<close>

definition tiny_maze :: maze where
  "tiny_maze = \<lparr> width = 1, height = 1, seed = 0, grid = (\<lambda>p. new_cell), start_pos = (0, 0) \<rparr>"

definition demo_settings :: settings where
  "demo_settings = \<lparr> maze_width = 1, maze_height = 1, start_age = 10, goal_age = 90 \<rparr>"

definition demo_controller :: "nat controller" where
  "demo_controller = init_controller lcg 0 demo_settings (new_game_state 0) tiny_maze [] 0"

text \<open>A provider that always answers, and a rendering of the voices.\<close>

definition demo_question :: question where
  "demo_question = \<lparr> q_id = ''q1'', prompt = ''A dilemma'', options = [''Yes'', ''No''],
      difficulty = 1 / 2, tags = Some [''courage''] \<rparr>"

definition demo_provider :: provider where
  "demo_provider =
     \<lparr> get_question = (\<lambda>a st ts. Inr demo_question),
       review_answer = (\<lambda>a q ans. Inr \<lparr> growth_delta = 3, match_score = 1 / 2, feedback = ''ok'' \<rparr>),
       score_values = (\<lambda>a q ans. Inr None),
       feedback_voices = (\<lambda>a q ans. Inr None),
       scenario_pool = (\<lambda>st. []) \<rparr>"

definition demo_voices :: "int \<Rightarrow> question \<Rightarrow> answer \<Rightarrow> value_dimensions \<Rightarrow> voices option \<Rightarrow> voices" where
  "demo_voices a q ans vd pv = (case pv of None \<Rightarrow> [] | Some v \<Rightarrow> v)"

text \<open>
  A controller on the grid of 2 by 2 cells that \<^verbatim>\<open>generate_maze(2, 2, 7)\<close> builds with the
  sample generator: the path \<open>(0,0)\<close>, \<open>(1,0)\<close>, \<open>(1,1)\<close>, \<open>(0,1)\<close>.
\<close>

definition demo_maze2 :: maze where
  "demo_maze2 = (case generate_maze lcg 0 2 2 (Some 7) of Inr (m, g) \<Rightarrow> m | Inl e \<Rightarrow> tiny_maze)"

definition demo_controller2 :: "nat controller" where
  "demo_controller2 =
     init_controller lcg 0 \<lparr> maze_width = 2, maze_height = 2, start_age = 10, goal_age = 90 \<rparr>
       (new_game_state 0) demo_maze2 [] 0"


section \<open>The DFS invariant\<close>

text \<open>
  What holds of the grid and the stack at every iteration of the loop: the start cell is
  visited, the stack holds visited cells, every visited cell is reachable from the start,
  a visited cell that left the stack has no unvisited neighbour, an unvisited cell has all
  its walls, walls are open on both sides or on none, and the carved walls number one
  less than the visited cells.
\<close>

definition visited_cells :: "maze \<Rightarrow> (int \<times> int) set" where
  "visited_cells m = {p. in_bounds m p \<and> visited (grid m p)}"

definition open_edges :: "maze \<Rightarrow> ((int \<times> int) \<times> direction) set" where
  "open_edges m = {(p, d). in_bounds m p \<and> in_bounds m (step_to p d) \<and> (d = East \<or> d = South)
                      \<and> \<not> walls (grid m p) d}"

definition walls_symmetric :: "maze \<Rightarrow> bool" where
  "walls_symmetric m = (\<forall>p d. in_bounds m p \<and> in_bounds m (step_to p d) \<longrightarrow>
      walls (grid m p) d = walls (grid m (step_to p d)) (opposite d))"

definition dfs_inv :: "maze \<Rightarrow> (int \<times> int) list \<Rightarrow> bool" where
  "dfs_inv m stack =
     (in_bounds m (0, 0) \<and> visited (grid m (0, 0)) \<and>
      (\<forall>p \<in> set stack. in_bounds m p \<and> visited (grid m p)) \<and>
      (\<forall>p \<in> visited_cells m. reachable m (0, 0) p) \<and>
      (\<forall>p \<in> visited_cells m. p \<notin> set stack \<longrightarrow>
          (\<forall>d. in_bounds m (step_to p d) \<longrightarrow> visited (grid m (step_to p d)))) \<and>
      (\<forall>p d. in_bounds m p \<and> \<not> visited (grid m p) \<longrightarrow> walls (grid m p) d) \<and>
      walls_symmetric m \<and>
      card (open_edges m) + 1 = card (visited_cells m))"

lemma dfs_invD:
  assumes "dfs_inv m st"
  shows "in_bounds m (0, 0)" and "visited (grid m (0, 0))"
    and "\<And>p. p \<in> set st \<Longrightarrow> in_bounds m p"
    and "\<And>p. p \<in> set st \<Longrightarrow> visited (grid m p)"
    and "\<And>p. p \<in> visited_cells m \<Longrightarrow> reachable m (0, 0) p"
    and "\<And>p d. p \<in> visited_cells m \<Longrightarrow> p \<notin> set st \<Longrightarrow> in_bounds m (step_to p d)
            \<Longrightarrow> visited (grid m (step_to p d))"
    and "\<And>p d. in_bounds m p \<Longrightarrow> \<not> visited (grid m p) \<Longrightarrow> walls (grid m p) d"
    and "walls_symmetric m"
    and "card (open_edges m) + 1 = card (visited_cells m)"
  using assms unfolding dfs_inv_def by blast+

lemma walls_symmetricD:
  "walls_symmetric m \<Longrightarrow> in_bounds m p \<Longrightarrow> in_bounds m (step_to p d) \<Longrightarrow>
     walls (grid m p) d = walls (grid m (step_to p d)) (opposite d)"
  unfolding walls_symmetric_def by blast

lemma visited_cells_iff: "p \<in> visited_cells m \<longleftrightarrow> in_bounds m p \<and> visited (grid m p)"
  by (simp add: visited_cells_def)

lemma step_back [simp]: "step_to (step_to p d) (opposite d) = p"
  by (cases d) (simp_all add: step_to_def)

lemma step_neq [simp]: "step_to p d \<noteq> p" "p \<noteq> step_to p d"
  by (cases d; cases p; simp add: step_to_def)+

lemma step_inj: "step_to p d = step_to p d' \<Longrightarrow> d = d'"
  by (cases d; cases d'; cases p; simp add: step_to_def)

lemma opposite_opposite [simp]: "opposite (opposite d) = d"
  by (cases d) simp_all

lemma opposite_inj: "opposite d = opposite d' \<Longrightarrow> d = d'"
  by (cases d; cases d'; simp)

lemma neighbors_iff:
  "(n, d) \<in> set (get_neighbors m c) \<longleftrightarrow> n = step_to c d \<and> in_bounds m n"
  by (cases d) (auto simp: get_neighbors_def get_cell_def in_bounds_def directions_def)

lemma walls_carve:
  "n \<noteq> c \<Longrightarrow> walls (grid (carve m c n d) q) d' =
     (if (q = c \<and> d' = d) \<or> (q = n \<and> d' = opposite d) then False else walls (grid m q) d')"
  by (auto simp: carve_def set_visited_def set_wall_def)

lemma visited_cells_carve:
  "in_bounds m n \<Longrightarrow> visited_cells (carve m c n d) = insert n (visited_cells m)"
  by (auto simp: visited_cells_def visited_carve)

lemma passage_carve:
  "n \<noteq> c \<Longrightarrow> passage m q r \<Longrightarrow> passage (carve m c n d) q r"
  by (auto simp: passage_def can_move_def walls_carve)

lemma reachable_carve:
  assumes "n \<noteq> c" and "reachable m p q"
  shows "reachable (carve m c n d) p q"
  using assms(2)
proof (induction rule: reachable.induct)
  case reachable_start
  then show ?case by (simp add: reachable.reachable_start)
next
  case (reachable_step q r)
  then show ?case by (blast intro: reachable.reachable_step passage_carve [OF assms(1)])
qed

lemma passage_new:
  "in_bounds m c \<Longrightarrow> in_bounds m (step_to c d) \<Longrightarrow> passage (carve m c (step_to c d) d) c (step_to c d)"
  by (cases d) (auto simp: passage_def can_move_def walls_carve directions_def)

lemma finite_open_edges: "finite (open_edges m)"
proof -
  have "open_edges m \<subseteq> {p. in_bounds m p} \<times> {East, South}"
    unfolding open_edges_def by blast
  moreover have "finite ({p. in_bounds m p} \<times> {East, South})"
    by (rule finite_cartesian_product [OF finite_in_bounds]) simp
  ultimately show ?thesis by (rule finite_subset)
qed

definition edge_of :: "int \<times> int \<Rightarrow> direction \<Rightarrow> (int \<times> int) \<times> direction" where
  "edge_of c d = (if d = East \<or> d = South then (c, d) else (step_to c d, opposite d))"

lemma opposite_east_south:
  "(opposite d = East \<or> opposite d = South) \<longleftrightarrow> \<not> (d = East \<or> d = South)"
  by (cases d) simp_all

lemma open_edges_carve:
  assumes "in_bounds m c" "in_bounds m (step_to c d)"
  shows "open_edges (carve m c (step_to c d) d) = insert (edge_of c d) (open_edges m)"
proof (rule set_eqI)
  fix e :: "(int \<times> int) \<times> direction"
  obtain p d' where e: "e = (p, d')" by (cases e)
  let ?n = "step_to c d"
  have ne: "?n \<noteq> c" by simp
  have w: "walls (grid (carve m c ?n d) p) d' =
      (if (p = c \<and> d' = d) \<or> (p = ?n \<and> d' = opposite d) then False else walls (grid m p) d')"
    by (rule walls_carve [OF ne])
  show "e \<in> open_edges (carve m c ?n d) \<longleftrightarrow> e \<in> insert (edge_of c d) (open_edges m)"
  proof (cases "d = East \<or> d = South")
    case True
    then have "\<not> (opposite d = East \<or> opposite d = South)" by (simp add: opposite_east_south)
    with True assms show ?thesis
      unfolding e open_edges_def edge_of_def by (auto simp: w)
  next
    case False
    then have "opposite d = East \<or> opposite d = South" by (simp add: opposite_east_south)
    with False assms show ?thesis
      unfolding e open_edges_def edge_of_def by (auto simp: w)
  qed
qed

lemma open_edgesD: "(p, d) \<in> open_edges m \<Longrightarrow> \<not> walls (grid m p) d"
  unfolding open_edges_def by blast

lemma edge_not_open:
  assumes "in_bounds m c" "in_bounds m (step_to c d)" "walls_symmetric m"
    "walls (grid m (step_to c d)) (opposite d)"
  shows "edge_of c d \<notin> open_edges m"
proof
  assume mem: "edge_of c d \<in> open_edges m"
  have wc: "walls (grid m c) d"
    using assms(4) walls_symmetricD [OF assms(3) assms(1) assms(2)] by (simp only:)
  show False
  proof (cases "d = East \<or> d = South")
    case True
    then have "edge_of c d = (c, d)" unfolding edge_of_def by (simp only: if_True)
    with mem have "(c, d) \<in> open_edges m" by (simp only:)
    from open_edgesD [OF this] wc show False by (simp only: not_True_eq_False)
  next
    case False
    then have "edge_of c d = (step_to c d, opposite d)" unfolding edge_of_def by (simp only: if_False)
    with mem have "(step_to c d, opposite d) \<in> open_edges m" by (simp only:)
    from open_edgesD [OF this] assms(4) show False by (simp only: not_True_eq_False)
  qed
qed

lemma step_inj_pos: "step_to p d = step_to q d \<Longrightarrow> p = q"
proof -
  assume "step_to p d = step_to q d"
  then have "step_to (step_to p d) (opposite d) = step_to (step_to q d) (opposite d)" by simp
  then show "p = q" by (simp only: step_back)
qed

lemma walls_symmetric_carve:
  assumes "walls_symmetric m"
  shows "walls_symmetric (carve m c (step_to c d) d)"
  unfolding walls_symmetric_def
proof (intro allI impI)
  fix p d'
  let ?n = "step_to c d"
  let ?m = "carve m c ?n d"
  let ?q = "step_to p d'"
  let ?A = "(p = c \<and> d' = d) \<or> (p = ?n \<and> d' = opposite d)"
  let ?B = "(?q = c \<and> opposite d' = d) \<or> (?q = ?n \<and> opposite d' = opposite d)"
  assume b: "in_bounds ?m p \<and> in_bounds ?m ?q"
  then have bp: "in_bounds m p" and bq: "in_bounds m ?q" by simp_all
  have old: "walls (grid m p) d' = walls (grid m ?q) (opposite d')"
    using assms bp bq by (rule walls_symmetricD)
  have ne: "?n \<noteq> c" by simp
  have 1: "(p = c \<and> d' = d) \<longleftrightarrow> (?q = ?n \<and> opposite d' = opposite d)"
  proof
    assume "p = c \<and> d' = d"
    then show "?q = ?n \<and> opposite d' = opposite d" by simp
  next
    assume r: "?q = ?n \<and> opposite d' = opposite d"
    then have dd: "d' = d" by (simp add: opposite_inj)
    with r have "p = c" by (simp add: step_inj_pos)
    with dd show "p = c \<and> d' = d" by simp
  qed
  have 2: "(p = ?n \<and> d' = opposite d) \<longleftrightarrow> (?q = c \<and> opposite d' = d)"
  proof
    assume "p = ?n \<and> d' = opposite d"
    then show "?q = c \<and> opposite d' = d" by simp
  next
    assume r: "?q = c \<and> opposite d' = d"
    then have dd: "d' = opposite d" by (metis opposite_opposite)
    have "p = step_to ?q (opposite d')" by (simp only: step_back)
    with r have "p = ?n" by simp
    with dd show "p = ?n \<and> d' = opposite d" by simp
  qed
  have AB: "?A \<longleftrightarrow> ?B" using 1 2 by blast
  have wp: "walls (grid ?m p) d' = (if ?A then False else walls (grid m p) d')"
    by (rule walls_carve [OF ne])
  have wq: "walls (grid ?m ?q) (opposite d') =
      (if ?B then False else walls (grid m ?q) (opposite d'))"
    by (rule walls_carve [OF ne])
  show "walls (grid ?m p) d' = walls (grid ?m ?q) (opposite d')"
  proof (cases ?A)
    case True
    then have ?B using AB by blast
    with True show ?thesis by (simp only: wp wq if_True)
  next
    case False
    then have "\<not> ?B" using AB by blast
    with False show ?thesis by (simp only: wp wq if_False old)
  qed
qed


lemma dfs_invI:
  assumes "in_bounds m (0, 0)" and "visited (grid m (0, 0))"
    and "\<forall>p \<in> set stack. in_bounds m p \<and> visited (grid m p)"
    and "\<forall>p \<in> visited_cells m. reachable m (0, 0) p"
    and "\<forall>p \<in> visited_cells m. p \<notin> set stack \<longrightarrow>
          (\<forall>d. in_bounds m (step_to p d) \<longrightarrow> visited (grid m (step_to p d)))"
    and "\<forall>p d. in_bounds m p \<and> \<not> visited (grid m p) \<longrightarrow> walls (grid m p) d"
    and "walls_symmetric m"
    and "card (open_edges m) + 1 = card (visited_cells m)"
  shows "dfs_inv m stack"
  unfolding dfs_inv_def by (intro conjI) (fact assms)+

lemma finite_visited_cells: "finite (visited_cells m)"
  by (rule finite_subset [OF _ finite_in_bounds [of m]]) (auto simp: visited_cells_def)

lemma dfs_inv_carve_step:
  assumes inv: "dfs_inv m (c # st)" and nin: "in_bounds m (step_to c d)"
    and unv: "\<not> visited (grid m (step_to c d))"
  shows "dfs_inv (carve m c (step_to c d) d) (step_to c d # c # st)"
proof -
  note D = dfs_invD [OF inv]
  have cin: "in_bounds m c" using D(3) [of c] by simp
  have cvis: "visited (grid m c)" using D(4) [of c] by simp
  have ne: "step_to c d \<noteq> c" by simp
  let ?n = "step_to c d"
  let ?m = "carve m c ?n d"
  have vc: "visited_cells ?m = insert ?n (visited_cells m)" by (rule visited_cells_carve [OF nin])
  have a1: "in_bounds ?m (0, 0)" using D(1) by simp
  have a1': "visited (grid ?m (0, 0))" using D(2) by (simp add: visited_carve)
  have a2: "\<forall>p \<in> set (?n # c # st). in_bounds ?m p \<and> visited (grid ?m p)"
  proof
    fix p assume "p \<in> set (?n # c # st)"
    then consider "p = ?n" | "p \<in> set (c # st)" by auto
    then show "in_bounds ?m p \<and> visited (grid ?m p)"
    proof cases
      case 1
      with nin show ?thesis by (simp add: visited_carve)
    next
      case 2
      with D(3) [of p] D(4) [of p] show ?thesis by (simp add: visited_carve)
    qed
  qed
  have "reachable m (0, 0) c" using D(5) cin cvis by (simp add: visited_cells_iff)
  then have "reachable ?m (0, 0) c" by (rule reachable_carve [OF ne])
  moreover have "passage ?m c ?n" using cin nin by (rule passage_new)
  ultimately have rn: "reachable ?m (0, 0) ?n" by (rule reachable_step)
  have a3: "\<forall>p \<in> visited_cells ?m. reachable ?m (0, 0) p"
  proof
    fix p assume "p \<in> visited_cells ?m"
    then have "p = ?n \<or> p \<in> visited_cells m" by (simp add: vc)
    then show "reachable ?m (0, 0) p"
    proof
      assume "p = ?n" with rn show ?thesis by simp
    next
      assume "p \<in> visited_cells m"
      then have "reachable m (0, 0) p" by (rule D(5))
      then show ?thesis by (rule reachable_carve [OF ne])
    qed
  qed
  have a4: "\<forall>p \<in> visited_cells ?m. p \<notin> set (?n # c # st) \<longrightarrow>
      (\<forall>d'. in_bounds ?m (step_to p d') \<longrightarrow> visited (grid ?m (step_to p d')))"
  proof (intro ballI impI allI)
    fix p d'
    assume p: "p \<in> visited_cells ?m" and ns: "p \<notin> set (?n # c # st)"
      and b: "in_bounds ?m (step_to p d')"
    from p ns have "p \<in> visited_cells m" by (simp add: vc)
    moreover from ns have "p \<notin> set (c # st)" by simp
    moreover from b have "in_bounds m (step_to p d')" by simp
    ultimately have "visited (grid m (step_to p d'))" by (rule D(6))
    then show "visited (grid ?m (step_to p d'))" by (simp add: visited_carve)
  qed
  have a5: "\<forall>p d'. in_bounds ?m p \<and> \<not> visited (grid ?m p) \<longrightarrow> walls (grid ?m p) d'"
  proof (intro allI impI)
    fix p d'
    assume h: "in_bounds ?m p \<and> \<not> visited (grid ?m p)"
    then have pn: "p \<noteq> ?n" and pu: "\<not> visited (grid m p)" and pb: "in_bounds m p"
      by (auto simp: visited_carve)
    from pu cvis have pc: "p \<noteq> c" by auto
    have "walls (grid m p) d'" using pb pu by (rule D(7))
    then show "walls (grid ?m p) d'" using pn pc by (simp add: walls_carve [OF ne])
  qed
  have sym: "walls_symmetric m" by (rule D(8))
  have a6: "walls_symmetric ?m" by (rule walls_symmetric_carve [OF sym])
  have closed: "walls (grid m ?n) (opposite d)" using nin unv by (rule D(7))
  have e: "edge_of c d \<notin> open_edges m"
    using cin nin sym closed by (rule edge_not_open)
  have oe: "open_edges ?m = insert (edge_of c d) (open_edges m)"
    using cin nin by (rule open_edges_carve)
  have nv: "?n \<notin> visited_cells m" using unv by (simp add: visited_cells_def)
  have "card (open_edges ?m) = Suc (card (open_edges m))"
    unfolding oe using finite_open_edges e by (rule card_insert_disjoint)
  moreover have "card (visited_cells ?m) = Suc (card (visited_cells m))"
    unfolding vc using finite_visited_cells nv by (rule card_insert_disjoint)
  ultimately have a7: "card (open_edges ?m) + 1 = card (visited_cells ?m)"
    using D(9) by simp
  show ?thesis
    by (rule dfs_invI [OF a1 a1' a2 a3 a4 a5 a6 a7])
qed

lemma dfs_inv_carve:
  assumes "dfs_inv m (c # st)" and "(n, d) \<in> set (get_neighbors m c)"
    and "\<not> visited (grid m n)"
  shows "dfs_inv (carve m c n d) (n # c # st)"
proof -
  from assms(2) have n: "n = step_to c d" by (simp add: neighbors_iff)
  from assms(2) have nin: "in_bounds m (step_to c d)" by (auto simp: neighbors_iff)
  from assms(3) have unv: "\<not> visited (grid m (step_to c d))" by (simp add: n)
  show ?thesis unfolding n using assms(1) nin unv by (rule dfs_inv_carve_step)
qed

lemma dfs_inv_pop:
  assumes inv: "dfs_inv m (c # st)"
    and none: "filter (\<lambda>nd. \<not> visited (grid m (fst nd))) (get_neighbors m c) = []"
  shows "dfs_inv m st"
proof -
  note D = dfs_invD [OF inv]
  have cl: "visited (grid m (step_to c d))" if "in_bounds m (step_to c d)" for d
  proof -
    from that have "(step_to c d, d) \<in> set (get_neighbors m c)" by (simp add: neighbors_iff)
    with none show ?thesis by (auto simp: filter_empty_conv)
  qed
  have a4: "\<forall>p \<in> visited_cells m. p \<notin> set st \<longrightarrow>
      (\<forall>d. in_bounds m (step_to p d) \<longrightarrow> visited (grid m (step_to p d)))"
  proof (intro ballI impI allI)
    fix p d
    assume p: "p \<in> visited_cells m" and ns: "p \<notin> set st" and b: "in_bounds m (step_to p d)"
    show "visited (grid m (step_to p d))"
    proof (cases "p = c")
      case True
      with b show ?thesis by (simp add: cl)
    next
      case False
      with ns have "p \<notin> set (c # st)" by simp
      with p show ?thesis using b by (rule D(6))
    qed
  qed
  have a2: "\<forall>p \<in> set st. in_bounds m p \<and> visited (grid m p)"
  proof
    fix p assume "p \<in> set st"
    then have "p \<in> set (c # st)" by simp
    then show "in_bounds m p \<and> visited (grid m p)" using D(3) [of p] D(4) [of p] by simp
  qed
  have a3: "\<forall>p \<in> visited_cells m. reachable m (0, 0) p" using D(5) by blast
  have a5: "\<forall>p d. in_bounds m p \<and> \<not> visited (grid m p) \<longrightarrow> walls (grid m p) d"
    using D(7) by blast
  show ?thesis
    by (rule dfs_invI [OF D(1) D(2) a2 a3 a4 a5 D(8) D(9)])
qed

lemma dfs_inv_final:
  "dfs_inv m stack \<Longrightarrow> dfs R m stack g = Inr (m', g') \<Longrightarrow>
     dfs_inv m' [] \<and> width m' = width m \<and> height m' = height m \<and> seed m' = seed m
     \<and> (\<forall>p. decision_node (grid m' p) = decision_node (grid m p))"
proof (induction R m stack g rule: dfs.induct)
  case (1 R m g)
  then show ?case by simp
next
  case (2 R m current stack g)
  let ?uv = "filter (\<lambda>nd. \<not> visited (grid m (fst nd))) (get_neighbors m current)"
  show ?case
  proof (cases "?uv = []")
    case True
    with "2.prems" have rec: "dfs R m stack g = Inr (m', g')"
      by (simp add: dfs.simps(2) [of R m current stack g])
    have inv': "dfs_inv m stack" using "2.prems"(1) True by (rule dfs_inv_pop)
    from True have nn: "\<not> ?uv \<noteq> []" by simp
    from "2.IH"(2) [OF refl nn inv' rec] show ?thesis .
  next
    case False
    with "2.prems" obtain nd g1 where ch: "choice R g ?uv = Inr (nd, g1)"
      and rec: "dfs R (carve m current (fst nd) (snd nd)) (fst nd # current # stack) g1 = Inr (m', g')"
      by (auto simp: dfs.simps(2) [of R m current stack g] split: sum.splits)
    from choice_mem [OF ch] have mem: "(fst nd, snd nd) \<in> set (get_neighbors m current)"
      and unv: "\<not> visited (grid m (fst nd))" by auto
    have inv': "dfs_inv (carve m current (fst nd) (snd nd)) (fst nd # current # stack)"
      by (rule dfs_inv_carve [OF "2.prems"(1) mem unv])
    have dims: "width (carve m current (fst nd) (snd nd)) = width m"
      "height (carve m current (fst nd) (snd nd)) = height m"
      "seed (carve m current (fst nd) (snd nd)) = seed m"
      "\<And>p. decision_node (grid (carve m current (fst nd) (snd nd)) p) = decision_node (grid m p)"
      by (simp_all add: carve_def set_visited_def set_wall_def)
    from "2.IH"(1) [OF refl False ch refl inv' rec] dims show ?thesis by simp
  qed
qed

lemma choice_total:
  assumes "choice_ok R" "xs \<noteq> []"
  shows "\<exists>x g'. choice R g xs = Inr (x, g')"
proof -
  from assms have "fst (rng_choice_index R g (length xs)) < length xs"
    unfolding choice_ok_def by simp
  then show ?thesis by (cases "rng_choice_index R g (length xs)") (simp add: choice_def)
qed

lemma dfs_total:
  "choice_ok R \<Longrightarrow> \<exists>m' g'. dfs R m stack g = Inr (m', g')"
proof (induction R m stack g rule: dfs.induct)
  case (1 R m g)
  then show ?case by simp
next
  case (2 R m current stack g)
  let ?uv = "filter (\<lambda>nd. \<not> visited (grid m (fst nd))) (get_neighbors m current)"
  show ?case
  proof (cases "?uv = []")
    case True
    from True have nn: "\<not> ?uv \<noteq> []" by simp
    from "2.IH"(2) [OF refl nn "2.prems"] True show ?thesis
      by (simp add: dfs.simps(2) [of R m current stack g])
  next
    case False
    from choice_total [OF "2.prems" False] obtain nd g1 where ch: "choice R g ?uv = Inr (nd, g1)"
      by blast
    from "2.IH"(1) [OF refl False ch refl "2.prems"] False ch show ?thesis
      by (simp add: dfs.simps(2) [of R m current stack g])
  qed
qed

lemma dfs_inv_init:
  assumes "0 < w" "0 < h"
  shows "dfs_inv (set_visited \<lparr> width = w, height = h, seed = sd, grid = (\<lambda>p. new_cell),
            start_pos = (0, 0) \<rparr> (0, 0)) [(0, 0)]"
proof -
  define m where "m = set_visited \<lparr> width = w, height = h, seed = sd, grid = (\<lambda>p. new_cell),
            start_pos = (0, 0) \<rparr> (0, 0)"
  have vis: "visited (grid m p) \<longleftrightarrow> p = (0, 0)" for p
    by (simp add: m_def set_visited_def new_cell_def)
  have w: "walls (grid m p) d" for p d
    by (simp add: m_def set_visited_def new_cell_def)
  have a1: "in_bounds m (0, 0)" using assms by (simp add: m_def in_bounds_def set_visited_def)
  have a1': "visited (grid m (0, 0))" by (simp add: vis)
  have vc: "visited_cells m = {(0, 0)}"
    unfolding visited_cells_def vis using a1 by blast
  have a2: "\<forall>p \<in> set [(0, 0)]. in_bounds m p \<and> visited (grid m p)"
    using a1 a1' by simp
  have a3: "\<forall>p \<in> visited_cells m. reachable m (0, 0) p"
    unfolding vc using a1 by (simp add: reachable_start)
  have a4: "\<forall>p \<in> visited_cells m. p \<notin> set [(0, 0)] \<longrightarrow>
      (\<forall>d. in_bounds m (step_to p d) \<longrightarrow> visited (grid m (step_to p d)))"
    unfolding vc by simp
  have a5: "\<forall>p d. in_bounds m p \<and> \<not> visited (grid m p) \<longrightarrow> walls (grid m p) d"
    using w by blast
  have a6: "walls_symmetric m" unfolding walls_symmetric_def using w by blast
  have "open_edges m = {}" unfolding open_edges_def using w by blast
  then have a7: "card (open_edges m) + 1 = card (visited_cells m)" by (simp add: vc)
  have "dfs_inv m [(0, 0)]" by (rule dfs_invI [OF a1 a1' a2 a3 a4 a5 a6 a7])
  then show ?thesis unfolding m_def .
qed

lemma closed_all_visited:
  assumes inv: "dfs_inv m []" and b: "in_bounds m p"
  shows "visited (grid m p)"
proof -
  note D = dfs_invD [OF inv]
  have stp: "visited (grid m (step_to q d))"
    if "in_bounds m q" "visited (grid m q)" "in_bounds m (step_to q d)" for q d
    using that D(6) [of q d] by (simp add: visited_cells_iff)
  have row: "x < width m \<longrightarrow> visited (grid m (x, 0))" if "0 \<le> x" for x
    using that
  proof (induction x rule: int_ge_induct)
    case base
    show ?case using D(2) by simp
  next
    case (step i)
    show ?case
    proof
      assume lt: "i + 1 < width m"
      with step have v: "visited (grid m (i, 0))" by simp
      have bi: "in_bounds m (i, 0)" using step(1) lt D(1) by (simp add: in_bounds_def)
      have bn: "in_bounds m (step_to (i, 0) East)" using step(1) lt D(1)
        by (simp add: in_bounds_def step_to_def)
      from stp [OF bi v bn] show "visited (grid m (i + 1, 0))" by (simp add: step_to_def)
    qed
  qed
  have col: "y < height m \<longrightarrow> visited (grid m (x, y))"
    if "0 \<le> y" "0 \<le> x" "x < width m" for x y
    using that
  proof (induction y rule: int_ge_induct)
    case base
    then show ?case using row [of x] by simp
  next
    case (step i)
    show ?case
    proof
      assume lt: "i + 1 < height m"
      with step have v: "visited (grid m (x, i))" by simp
      have bi: "in_bounds m (x, i)" using step lt by (simp add: in_bounds_def)
      have bn: "in_bounds m (step_to (x, i) South)" using step lt
        by (simp add: in_bounds_def step_to_def)
      from stp [OF bi v bn] show "visited (grid m (x, i + 1))" by (simp add: step_to_def)
    qed
  qed
  obtain x y where p: "p = (x, y)" by (cases p)
  from b col [of y x] show ?thesis by (simp add: p in_bounds_def)
qed

lemma all_coords_product:
  "all_coords m = map (\<lambda>(y, x). (x, y)) (List.product [0..height m - 1] [0..width m - 1])"
  by (simp add: all_coords_def product_concat_map map_concat comp_def)

lemma set_all_coords: "set (all_coords m) = {p. in_bounds m p}"
  by (auto simp: all_coords_def in_bounds_def)

lemma distinct_all_coords: "distinct (all_coords m)"
  unfolding all_coords_product
  by (rule distinct_map [THEN iffD2]) (auto simp: distinct_product inj_on_def)

lemma length_all_coords:
  "0 < width m \<Longrightarrow> 0 < height m \<Longrightarrow> length (all_coords m) = nat (width m) * nat (height m)"
  by (simp add: all_coords_product)

lemma card_in_bounds:
  "0 < width m \<Longrightarrow> 0 < height m \<Longrightarrow> card {p. in_bounds m p} = nat (width m) * nat (height m)"
  using distinct_card [OF distinct_all_coords, of m]
  by (simp add: set_all_coords length_all_coords)

lemma set_removed_walls:
  assumes "walls_symmetric m"
  shows "set (removed_walls m) = open_edges m"
proof (rule set_eqI)
  fix e :: "(int \<times> int) \<times> direction"
  obtain p d where e: "e = (p, d)" by (cases e)
  have sym: "walls (grid m (step_to p d)) (opposite d) = walls (grid m p) d"
    if "in_bounds m p" "in_bounds m (step_to p d)"
    using walls_symmetricD [OF assms that] by (rule sym)
  show "e \<in> set (removed_walls m) \<longleftrightarrow> e \<in> open_edges m"
    unfolding e removed_walls_def open_edges_def
    using sym by (auto simp: set_all_coords)
qed

lemma distinct_removed_walls: "distinct (removed_walls m)"
  unfolding removed_walls_def
  by (rule distinct_filter) (simp add: distinct_product distinct_all_coords)

lemma length_removed_walls:
  "walls_symmetric m \<Longrightarrow> length (removed_walls m) = card (open_edges m)"
  using distinct_card [OF distinct_removed_walls, of m] by (simp add: set_removed_walls)

lemma dfs_inv_done:
  assumes inv: "dfs_inv m []" and w: "0 < width m" and h: "0 < height m"
  shows "int (length (removed_walls m)) = width m * height m - 1"
    and "in_bounds m p \<Longrightarrow> reachable m (0, 0) p"
proof -
  note D = dfs_invD [OF inv]
  have all: "visited_cells m = {p. in_bounds m p}"
    unfolding visited_cells_def using closed_all_visited [OF inv] by blast
  have "card (open_edges m) + 1 = nat (width m) * nat (height m)"
    using D(9) by (simp add: all card_in_bounds [OF w h])
  then have "int (card (open_edges m)) + 1 = int (nat (width m) * nat (height m))"
    by (metis of_nat_Suc Suc_eq_plus1 add.commute of_nat_add of_nat_1)
  also have "\<dots> = width m * height m" using w h by simp
  finally show "int (length (removed_walls m)) = width m * height m - 1"
    by (simp add: length_removed_walls [OF D(8)])
  show "reachable m (0, 0) p" if "in_bounds m p"
    using D(5) [of p] that by (simp add: all)
qed

definition same_layout :: "maze \<Rightarrow> maze \<Rightarrow> bool" where
  "same_layout m m' =
     (width m' = width m \<and> height m' = height m \<and> (\<forall>p. walls (grid m' p) = walls (grid m p)))"

lemma same_layout_refl: "same_layout m m"
  by (simp add: same_layout_def)

lemma same_layout_trans: "same_layout m m' \<Longrightarrow> same_layout m' m'' \<Longrightarrow> same_layout m m''"
  by (simp add: same_layout_def)

lemma same_layout_set_decision_node: "same_layout m (set_decision_node m p)"
  by (simp add: same_layout_def set_decision_node_def)

lemma same_layout_fold:
  "same_layout m (fold (\<lambda>p m'. set_decision_node m' p) ps m)"
proof (induction ps arbitrary: m)
  case Nil
  show ?case by (simp add: same_layout_refl)
next
  case (Cons p ps)
  have "same_layout (set_decision_node m p) (fold (\<lambda>p m'. set_decision_node m' p) ps (set_decision_node m p))"
    by (rule Cons.IH)
  with same_layout_set_decision_node [of m p] show ?case
    by (simp add: same_layout_trans)
qed

lemma same_layout_mark_pass:
  "mark_pass R ps m dn g = (m', dn', g') \<Longrightarrow> same_layout m m'"
proof (induction ps arbitrary: m dn g)
  case Nil
  then show ?case by (simp add: same_layout_refl)
next
  case (Cons p ps)
  show ?case
  proof (cases "3 \<le> opening_count (grid m p) \<and> fst (rng_random R g) < 3 / 10")
    case True
    with Cons.prems have "mark_pass R ps (set_decision_node m p) (dn @ [p]) (snd (rng_random R g)) = (m', dn', g')"
      by (simp add: split_beta)
    then have "same_layout (set_decision_node m p) m'" by (rule Cons.IH)
    with same_layout_set_decision_node [of m p] show ?thesis by (rule same_layout_trans)
  next
    case False
    with Cons.prems have "\<exists>g1. mark_pass R ps m dn g1 = (m', dn', g')"
      by (auto simp: split_beta split: if_splits)
    then show ?thesis using Cons.IH by blast
  qed
qed

lemma same_layout_ensure:
  "ensure_decision_nodes R m dn g = (m', g') \<Longrightarrow> same_layout m m'"
  by (auto simp: ensure_decision_nodes_def split_beta same_layout_fold same_layout_refl
      split: if_splits)

lemma same_layout_start_pos: "same_layout m (m\<lparr>start_pos := q\<rparr>)"
  by (simp add: same_layout_def)

lemma same_layout_in_bounds: "same_layout m m' \<Longrightarrow> in_bounds m' p = in_bounds m p"
  by (simp add: same_layout_def in_bounds_def)

lemma same_layout_all_coords: "same_layout m m' \<Longrightarrow> all_coords m' = all_coords m"
  by (simp add: same_layout_def all_coords_def)

lemma same_layout_walls: "same_layout m m' \<Longrightarrow> walls (grid m' p) = walls (grid m p)"
  unfolding same_layout_def by blast

lemma same_layout_removed_walls: "same_layout m m' \<Longrightarrow> removed_walls m' = removed_walls m"
  by (simp add: removed_walls_def same_layout_all_coords same_layout_in_bounds same_layout_walls)

lemma same_layout_passage: "same_layout m m' \<Longrightarrow> passage m p q \<Longrightarrow> passage m' p q"
  by (simp add: passage_def can_move_def same_layout_in_bounds same_layout_walls)

lemma same_layout_reachable:
  assumes "same_layout m m'" and "reachable m p q"
  shows "reachable m' p q"
  using assms(2)
proof (induction rule: reachable.induct)
  case reachable_start
  then show ?case using assms(1) by (simp add: reachable.reachable_start same_layout_in_bounds)
next
  case (reachable_step q r)
  from same_layout_passage [OF assms(1) reachable_step(2)] reachable_step(3)
  show ?case by (rule reachable.reachable_step [rotated])
qed

lemma generate_maze_result:
  assumes ok: "choice_ok R" and w: "0 < w" and h: "0 < h"
  shows "\<exists>m1 m g'. generate_maze R g w h seed_arg = Inr (m, g') \<and> dfs_inv m1 []
           \<and> width m1 = w \<and> height m1 = h \<and> same_layout m1 m"
proof -
  obtain sd g1 where sg: "(case seed_arg of None \<Rightarrow> rng_randint R g 1 999999 | Some s \<Rightarrow> (s, g)) = (sd, g1)"
    by (cases "case seed_arg of None \<Rightarrow> rng_randint R g 1 999999 | Some s \<Rightarrow> (s, g)")
  define m0 where "m0 = set_visited \<lparr> width = w, height = h, seed = sd, grid = (\<lambda>p. new_cell),
      start_pos = (0, 0) \<rparr> (0, 0)"
  have inv0: "dfs_inv m0 [(0, 0)]" unfolding m0_def using w h by (rule dfs_inv_init)
  from dfs_total [OF ok] obtain m1 g3 where d: "dfs R m0 [(0, 0)] (rng_seed R sd) = Inr (m1, g3)"
    by blast
  from dfs_inv_final [OF inv0 d] have inv1: "dfs_inv m1 []" and w1: "width m1 = w"
    and h1: "height m1 = h" by (simp_all add: m0_def set_visited_def)
  obtain m2 dn g4 where mp: "mark_pass R (all_coords m1) m1 [] g3 = (m2, dn, g4)"
    by (cases "mark_pass R (all_coords m1) m1 [] g3")
  obtain m3 g5 where en: "ensure_decision_nodes R m2 dn g4 = (m3, g5)"
    by (cases "ensure_decision_nodes R m2 dn g4")
  have l: "same_layout m1 (m3\<lparr>start_pos := (0, 0)\<rparr>)"
    using same_layout_mark_pass [OF mp] same_layout_ensure [OF en] same_layout_start_pos
    by (blast intro: same_layout_trans)
  have "generate_maze R g w h seed_arg = Inr (m3\<lparr>start_pos := (0, 0)\<rparr>, g5)"
    using w h d mp en by (simp add: generate_maze_def sg m0_def)
  with inv1 w1 h1 l show ?thesis by blast
qed

lemma decision_node_set_decision_node:
  "decision_node (grid (set_decision_node m p) q) = (q = p \<or> decision_node (grid m q))"
  by (simp add: set_decision_node_def)

lemma same_layout_opening_count:
  "same_layout m m' \<Longrightarrow> opening_count (grid m' p) = opening_count (grid m p)"
  by (simp add: opening_count_def open_directions_def same_layout_walls)

lemma mark_pass_props:
  assumes "mark_pass R ps m dn g = (m', dn', g')" and "distinct ps"
    and "\<forall>p \<in> set ps. \<not> decision_node (grid m p)"
  shows "dn' = dn @ filter (\<lambda>p. decision_node (grid m' p)) ps
      \<and> (\<forall>p. p \<notin> set ps \<longrightarrow> decision_node (grid m' p) = decision_node (grid m p))
      \<and> (\<forall>p \<in> set ps. decision_node (grid m' p) \<longrightarrow> 3 \<le> opening_count (grid m p))"
  using assms
proof (induction ps arbitrary: m dn g)
  case Nil
  then show ?case by simp
next
  case (Cons p ps)
  have d: "distinct ps" and pn: "p \<notin> set ps" using Cons.prems(2) by simp_all
  show ?case
  proof (cases "3 \<le> opening_count (grid m p) \<and> fst (rng_random R g) < 3 / 10")
    case True
    let ?m1 = "set_decision_node m p"
    from True Cons.prems(1)
    have rec: "mark_pass R ps ?m1 (dn @ [p]) (snd (rng_random R g)) = (m', dn', g')"
      by (simp add: split_beta)
    have nd: "\<forall>q \<in> set ps. \<not> decision_node (grid ?m1 q)"
      using Cons.prems(3) pn by (auto simp: decision_node_set_decision_node)
    note IH = Cons.IH [OF rec d nd]
    from IH have I1: "dn' = (dn @ [p]) @ filter (\<lambda>p. decision_node (grid m' p)) ps" by blast
    from IH have I2: "decision_node (grid m' q) = decision_node (grid ?m1 q)" if "q \<notin> set ps" for q
      using that by blast
    from IH have I3: "3 \<le> opening_count (grid ?m1 q)"
      if "q \<in> set ps" "decision_node (grid m' q)" for q
      using that by blast
    have oc: "opening_count (grid ?m1 q) = opening_count (grid m q)" for q
      by (rule same_layout_opening_count [OF same_layout_set_decision_node])
    have pm: "decision_node (grid m' p)"
      using I2 [OF pn] by (simp add: decision_node_set_decision_node)
    have 1: "dn' = dn @ filter (\<lambda>p. decision_node (grid m' p)) (p # ps)"
      using I1 pm by simp
    have 2: "\<forall>q. q \<notin> set (p # ps) \<longrightarrow> decision_node (grid m' q) = decision_node (grid m q)"
    proof (intro allI impI)
      fix q assume "q \<notin> set (p # ps)"
      then have "q \<notin> set ps" "q \<noteq> p" by auto
      with I2 [of q] show "decision_node (grid m' q) = decision_node (grid m q)"
        by (simp add: decision_node_set_decision_node)
    qed
    have 3: "\<forall>q \<in> set (p # ps). decision_node (grid m' q) \<longrightarrow> 3 \<le> opening_count (grid m q)"
    proof (intro ballI impI)
      fix q assume "q \<in> set (p # ps)" and dq: "decision_node (grid m' q)"
      then consider "q = p" | "q \<in> set ps" by auto
      then show "3 \<le> opening_count (grid m q)"
      proof cases
        case 1 with True show ?thesis by simp
      next
        case 2 from I3 [OF 2 dq] show ?thesis by (simp add: oc)
      qed
    qed
    from 1 2 3 show ?thesis by blast
  next
    case False
    with Cons.prems(1) obtain g1 where rec: "mark_pass R ps m dn g1 = (m', dn', g')"
      by (auto simp: split_beta split: if_splits)
    have nd: "\<forall>q \<in> set ps. \<not> decision_node (grid m q)" using Cons.prems(3) by simp
    note IH = Cons.IH [OF rec d nd]
    from IH have I1: "dn' = dn @ filter (\<lambda>p. decision_node (grid m' p)) ps" by blast
    from IH have I2: "decision_node (grid m' q) = decision_node (grid m q)" if "q \<notin> set ps" for q
      using that by blast
    from IH have I3: "3 \<le> opening_count (grid m q)"
      if "q \<in> set ps" "decision_node (grid m' q)" for q
      using that by blast
    have "\<not> decision_node (grid m p)" using Cons.prems(3) by simp
    then have pm: "\<not> decision_node (grid m' p)" using I2 [OF pn] by simp
    have 1: "dn' = dn @ filter (\<lambda>p. decision_node (grid m' p)) (p # ps)"
      using I1 pm by simp
    have 2: "\<forall>q. q \<notin> set (p # ps) \<longrightarrow> decision_node (grid m' q) = decision_node (grid m q)"
    proof (intro allI impI)
      fix q assume "q \<notin> set (p # ps)"
      then have "q \<notin> set ps" by auto
      then show "decision_node (grid m' q) = decision_node (grid m q)" by (rule I2)
    qed
    have 3: "\<forall>q \<in> set (p # ps). decision_node (grid m' q) \<longrightarrow> 3 \<le> opening_count (grid m q)"
    proof (intro ballI impI)
      fix q assume "q \<in> set (p # ps)" and dq: "decision_node (grid m' q)"
      with pm have "q \<in> set ps" by auto
      then show "3 \<le> opening_count (grid m q)" using dq by (rule I3)
    qed
    from 1 2 3 show ?thesis by blast
  qed
qed

lemma decision_node_fold:
  "decision_node (grid (fold (\<lambda>p m'. set_decision_node m' p) ps m) q)
     = (q \<in> set ps \<or> decision_node (grid m q))"
  by (induction ps arbitrary: m) (auto simp: decision_node_set_decision_node)

lemma length_filter_split:
  "length (filter P xs) = length (filter (\<lambda>x. P x \<and> Q x) xs) + length (filter (\<lambda>x. P x \<and> \<not> Q x) xs)"
  by (induction xs) auto

lemma length_filter_mem:
  assumes "distinct xs" "distinct ys" "set ys \<subseteq> set xs"
  shows "length (filter (\<lambda>x. x \<in> set ys) xs) = length ys"
proof -
  have "{x. x \<in> set ys} \<inter> set xs = set ys" using assms(3) by blast
  then show ?thesis
    using distinct_length_filter [OF assms(1), of "\<lambda>x. x \<in> set ys"] distinct_card [OF assms(2)]
    by simp
qed

lemma ensure_count:
  assumes sh: "shuffle_ok R" and en: "ensure_decision_nodes R m2 dn g4 = (m3, g5)"
    and dn: "dn = decision_nodes_of m2"
    and d3: "\<forall>p \<in> set (all_coords m2). decision_node (grid m2 p) \<longrightarrow> 3 \<le> opening_count (grid m2 p)"
  shows "min 5 (length (filter (\<lambda>p. 2 \<le> opening_count (grid m3 p)) (all_coords m3)))
           \<le> length (decision_nodes_of m3)"
proof (cases "length dn < 5")
  case False
  with en have "m3 = m2" by (simp add: ensure_decision_nodes_def)
  with False dn show ?thesis by simp
next
  case True
  let ?A = "all_coords m2"
  let ?D = "\<lambda>p. decision_node (grid m2 p)"
  let ?O = "\<lambda>p. 2 \<le> opening_count (grid m2 p)"
  let ?cand = "fill_candidates m2"
  obtain sl g' where s: "rng_shuffle R g4 ?cand = (sl, g')" by (cases "rng_shuffle R g4 ?cand")
  let ?taken = "take (5 - length dn) sl"
  from True en s have m3: "m3 = fold (\<lambda>p m'. set_decision_node m' p) ?taken m2"
    by (simp add: ensure_decision_nodes_def)
  have lay: "same_layout m2 m3" using en by (rule same_layout_ensure)
  have ms: "mset sl = mset ?cand" using sh s unfolding shuffle_ok_def by (metis fst_conv)
  have dA: "distinct ?A" by (rule distinct_all_coords)
  have dc: "distinct ?cand" unfolding fill_candidates_def using dA by simp
  have dsl: "distinct sl" using ms dc by (metis mset_eq_imp_distinct_iff)
  have ssl: "set sl = set ?cand" using ms by (rule mset_eq_setD)
  have lsl: "length sl = length ?cand" using ms by (rule mset_eq_length)
  have dt: "distinct ?taken" using dsl by simp
  have st: "set ?taken \<subseteq> set ?cand" using ssl set_take_subset [of "5 - length dn" sl] by simp
  have stA: "set ?taken \<subseteq> set ?A" using st by (auto simp: fill_candidates_def)
  have tnd: "\<not> ?D p" if "p \<in> set ?taken" for p
    using that st by (auto simp: fill_candidates_def)
  have lt: "length ?taken = min (5 - length dn) (length ?cand)" by (simp add: lsl min.commute)
  have D3: "decision_node (grid m3 p) = (p \<in> set ?taken \<or> ?D p)" for p
    unfolding m3 by (rule decision_node_fold)
  have e0: "length (decision_nodes_of m3) = length (filter (\<lambda>p. p \<in> set ?taken \<or> ?D p) ?A)"
    by (simp add: decision_nodes_of_def same_layout_all_coords [OF lay] D3)
  have e1: "length (filter (\<lambda>p. p \<in> set ?taken \<or> ?D p) ?A)
      = length (filter (\<lambda>p. (p \<in> set ?taken \<or> ?D p) \<and> ?D p) ?A)
      + length (filter (\<lambda>p. (p \<in> set ?taken \<or> ?D p) \<and> \<not> ?D p) ?A)"
    by (rule length_filter_split)
  have e2: "filter (\<lambda>p. (p \<in> set ?taken \<or> ?D p) \<and> ?D p) ?A = filter ?D ?A"
    by (rule filter_cong) auto
  have e3: "filter (\<lambda>p. (p \<in> set ?taken \<or> ?D p) \<and> \<not> ?D p) ?A = filter (\<lambda>p. p \<in> set ?taken) ?A"
    by (rule filter_cong) (auto simp: tnd)
  have e4: "length (filter (\<lambda>p. p \<in> set ?taken) ?A) = length ?taken"
    using dA dt stA by (rule length_filter_mem)
  have e5: "length (filter ?D ?A) = length dn" by (simp add: dn decision_nodes_of_def)
  have cnt: "length (decision_nodes_of m3) = length dn + min (5 - length dn) (length ?cand)"
    by (simp only: e0 e1 e2 e3 e4 e5 lt)
  have o1: "length (filter ?O ?A) = length (filter (\<lambda>p. ?O p \<and> ?D p) ?A)
      + length (filter (\<lambda>p. ?O p \<and> \<not> ?D p) ?A)"
    by (rule length_filter_split)
  have o2: "filter (\<lambda>p. ?O p \<and> ?D p) ?A = filter ?D ?A"
  proof (rule filter_cong [OF refl])
    fix p assume "p \<in> set ?A"
    with d3 show "(?O p \<and> ?D p) = ?D p" by auto
  qed
  have o3: "filter (\<lambda>p. ?O p \<and> \<not> ?D p) ?A = ?cand" by (simp add: fill_candidates_def)
  have oc: "length (filter ?O ?A) = length dn + length ?cand"
    by (simp only: o1 o2 o3 e5)
  have "length (filter (\<lambda>p. 2 \<le> opening_count (grid m3 p)) (all_coords m3)) = length (filter ?O ?A)"
    by (simp add: same_layout_all_coords [OF lay] same_layout_opening_count [OF lay])
  with oc cnt True show ?thesis by simp
qed

lemma mset_rotate1_eq: "mset (rotate1 xs) = mset xs"
  by (cases xs) simp_all

lemma shuffle_ok_lcg: "shuffle_ok lcg"
  by (simp add: shuffle_ok_def lcg_def mset_rotate1_eq)

lemma choice_ok_lcg: "choice_ok lcg"
  by (simp add: choice_ok_def lcg_def)

section \<open>Maze generation: the claims\<close>

text \<open>
  C3. Two runs of \<^verbatim>\<open>generate_maze(w, h, s)\<close> with the same width, height and seed give the
  same maze: the same wall layout in every cell and the same decision nodes. The two runs
  start from any two states \<open>g\<close> and \<open>g'\<close> of the module generator; the call reseeds it,
  so the result (the maze, the error when there is one, and the state the generator is
  left in) does not depend on the state it started from.
\<close>

theorem generate_maze_deterministic:
  "generate_maze R g w h (Some s) = generate_maze R g' w h (Some s)"
  by (simp add: generate_maze_def)

text \<open>
  C4. Every maze that \<^verbatim>\<open>generate_maze\<close> produces has every cell reachable from the start
  cell \<open>(0, 0)\<close> through open walls, and exactly \<open>w * h - 1\<close> internal walls removed. A
  maze is produced for every positive width and height (a grid without a cell raises at
  \<^verbatim>\<open>maze.grid[0][0]\<close>), whatever the seed argument and the state of the generator, as long
  as \<^verbatim>\<open>random.choice\<close> returns an element of its argument.
\<close>

theorem generate_maze_spanning_tree:
  assumes "choice_ok R" and "0 < w" and "0 < h"
  shows "\<exists>m g'. generate_maze R g w h seed_arg = Inr (m, g') \<and> width m = w \<and> height m = h
           \<and> (\<forall>p. in_bounds m p \<longrightarrow> reachable m (0, 0) p)
           \<and> int (length (removed_walls m)) = w * h - 1"
proof -
  from generate_maze_result [OF assms, of g seed_arg] obtain m1 m g'
    where gen: "generate_maze R g w h seed_arg = Inr (m, g')" and inv: "dfs_inv m1 []"
      and w1: "width m1 = w" and h1: "height m1 = h" and l: "same_layout m1 m"
    by blast
  have pos: "0 < width m1" "0 < height m1" using assms w1 h1 by simp_all
  have cnt: "int (length (removed_walls m)) = w * h - 1"
    using dfs_inv_done(1) [OF inv pos] by (simp add: same_layout_removed_walls [OF l] w1 h1)
  have rch: "\<forall>p. in_bounds m p \<longrightarrow> reachable m (0, 0) p"
  proof (intro allI impI)
    fix p assume "in_bounds m p"
    then have "in_bounds m1 p" by (simp add: same_layout_in_bounds [OF l])
    from dfs_inv_done(2) [OF inv pos this] show "reachable m (0, 0) p"
      by (rule same_layout_reachable [OF l])
  qed
  have dims: "width m = w" "height m = h" using l w1 h1 by (simp_all add: same_layout_def)
  from gen dims rch cnt show ?thesis by blast
qed

text \<open>The theorem at a 2 by 2 grid, seed 7, on the sample generator.\<close>

theorem generate_maze_spanning_tree_witness:
  "\<exists>m g'. generate_maze lcg 0 2 2 (Some 7) = Inr (m, g') \<and> width m = 2 \<and> height m = 2
     \<and> (\<forall>p. in_bounds m p \<longrightarrow> reachable m (0, 0) p)
     \<and> int (length (removed_walls m)) = 2 * 2 - 1"
  using generate_maze_spanning_tree [of lcg 2 2 0 "Some 7"]
  by (simp add: choice_ok_def lcg_def)

text \<open>
  C9, as the code has it. The claim (every generated maze has at least 5 decision nodes)
  fails on small grids: the 1 by 1 maze has no decision node and a 2 by 2 maze has two,
  since the fill-up draws only from cells with at least two open sides and there are
  fewer than five of them.
\<close>

theorem generate_maze_few_decision_nodes:
  "decision_node_count (generate_maze lcg 0 1 1 (Some 7)) = Some 0
   \<and> decision_node_count (generate_maze lcg 0 2 2 (Some 7)) = Some 2"
  by code_simp

text \<open>
  C9, amended. Every maze that \<^verbatim>\<open>generate_maze\<close> produces has at least
  \<open>min 5 k\<close> decision nodes, where \<open>k\<close> is the number of its cells with at least two
  open sides: at least 5 whenever 5 such cells exist. (\<^verbatim>\<open>random.shuffle\<close> permutes its
  argument.)
\<close>

theorem generate_maze_decision_nodes:
  assumes sh: "shuffle_ok R" and gen: "generate_maze R g w h seed_arg = Inr (m, g')"
  shows "min 5 (corridor_count m) \<le> length (decision_nodes_of m)"
proof -
  obtain sd g1 where sg: "(case seed_arg of None \<Rightarrow> rng_randint R g 1 999999 | Some s \<Rightarrow> (s, g)) = (sd, g1)"
    by (cases "case seed_arg of None \<Rightarrow> rng_randint R g 1 999999 | Some s \<Rightarrow> (s, g)")
  define m0 where "m0 = set_visited \<lparr> width = w, height = h, seed = sd, grid = (\<lambda>p. new_cell),
      start_pos = (0, 0) \<rparr> (0, 0)"
  from gen have pos: "0 < w" "0 < h"
    by (auto simp: generate_maze_def sg Let_def split: if_splits)
  from gen pos obtain m1 g3 where d: "dfs R m0 [(0, 0)] (rng_seed R sd) = Inr (m1, g3)"
    by (auto simp: generate_maze_def sg m0_def split: sum.splits)
  obtain m2 dn g4 where mp: "mark_pass R (all_coords m1) m1 [] g3 = (m2, dn, g4)"
    by (cases "mark_pass R (all_coords m1) m1 [] g3")
  obtain m3 g5 where en: "ensure_decision_nodes R m2 dn g4 = (m3, g5)"
    by (cases "ensure_decision_nodes R m2 dn g4")
  have m: "m = m3\<lparr>start_pos := (0, 0)\<rparr>"
    using gen pos d mp en by (simp add: generate_maze_def sg m0_def)
  have inv0: "dfs_inv m0 [(0, 0)]" unfolding m0_def using pos by (rule dfs_inv_init)
  have nd0: "\<not> decision_node (grid m0 p)" for p
    by (simp add: m0_def set_visited_def new_cell_def)
  from dfs_inv_final [OF inv0 d] have "decision_node (grid m1 p) = decision_node (grid m0 p)" for p
    by blast
  then have nd1: "\<not> decision_node (grid m1 p)" for p by (simp add: nd0)
  then have nd1': "\<forall>p \<in> set (all_coords m1). \<not> decision_node (grid m1 p)" by simp
  note P = mark_pass_props [OF mp distinct_all_coords nd1']
  have l12: "same_layout m1 m2" using mp by (rule same_layout_mark_pass)
  from P have dn: "dn = decision_nodes_of m2"
    by (simp add: decision_nodes_of_def same_layout_all_coords [OF l12])
  have d3: "\<forall>p \<in> set (all_coords m2). decision_node (grid m2 p) \<longrightarrow> 3 \<le> opening_count (grid m2 p)"
  proof (intro ballI impI)
    fix p assume "p \<in> set (all_coords m2)" and dp: "decision_node (grid m2 p)"
    then have "p \<in> set (all_coords m1)" by (simp add: same_layout_all_coords [OF l12])
    with P dp have "3 \<le> opening_count (grid m1 p)" by blast
    then show "3 \<le> opening_count (grid m2 p)" by (simp add: same_layout_opening_count [OF l12])
  qed
  from ensure_count [OF sh en dn d3]
  show ?thesis by (simp add: m corridor_count_def decision_nodes_of_def all_coords_def)
qed

text \<open>The theorem at a 3 by 3 grid, seed 7, on the sample generator.\<close>

theorem generate_maze_decision_nodes_witness:
  "\<exists>m g'. generate_maze lcg 0 3 3 (Some 7) = Inr (m, g')
     \<and> min 5 (corridor_count m) \<le> length (decision_nodes_of m)"
proof -
  have "shuffle_ok lcg" by (simp add: shuffle_ok_def lcg_def mset_rotate1_eq)
  moreover obtain m g' where gen: "generate_maze lcg 0 3 3 (Some 7) = Inr (m, g')"
    using generate_maze_result [OF choice_ok_lcg, of 3 3 0 "Some 7"] by auto
  ultimately have "min 5 (corridor_count m) \<le> length (decision_nodes_of m)"
    by (rule generate_maze_decision_nodes)
  with gen show ?thesis by blast
qed

section \<open>Regeneration of the ability charges\<close>

text \<open>
  The regular regeneration pass in the words of the specification: \<open>n\<close> whole intervals
  have passed, the charges grow by \<open>n\<close> times the gain per tick up to the cap (from at
  least 0), the timestamp advances by exactly \<open>n\<close> intervals, and what remains of the
  elapsed time, less than one interval, is kept.
\<close>

definition regenerated ::
  "int \<Rightarrow> real \<Rightarrow> int \<Rightarrow> real \<Rightarrow> real \<Rightarrow> int \<Rightarrow> int \<Rightarrow> real option \<Rightarrow> bool" where
  "regenerated cap interval per_tick_gain now last_tick charges charges' last_tick' =
     (let n = \<lfloor>(now - last_tick) / interval\<rfloor>;
          t' = last_tick + of_int n * interval
      in charges' = min cap (max 0 charges + n * per_tick_gain)
         \<and> last_tick' = Some t'
         \<and> t' \<le> now \<and> now - t' < interval)"

lemma remainder_kept:
  fixes e :: real and i :: real
  assumes "0 < i"
  shows "of_int \<lfloor>e / i\<rfloor> * i \<le> e" and "e - of_int \<lfloor>e / i\<rfloor> * i < i"
proof -
  have "of_int \<lfloor>e / i\<rfloor> \<le> e / i" by simp
  then have "of_int \<lfloor>e / i\<rfloor> * i \<le> (e / i) * i" using assms by (intro mult_right_mono) simp_all
  then show 1: "of_int \<lfloor>e / i\<rfloor> * i \<le> e" using assms by simp
  have "e / i < of_int \<lfloor>e / i\<rfloor> + 1" by linarith
  then have "(e / i) * i < (of_int \<lfloor>e / i\<rfloor> + 1) * i" using assms by (intro mult_strict_right_mono) simp_all
  then have "e < (of_int \<lfloor>e / i\<rfloor> + 1) * i" using assms by simp
  then show "e - of_int \<lfloor>e / i\<rfloor> * i < i" by (simp add: algebra_simps)
qed

lemma regeneratedI:
  assumes "0 < interval"
    and "charges' = min cap (max 0 charges + \<lfloor>(now - last_tick) / interval\<rfloor> * gain)"
    and "last_tick' = Some (last_tick + of_int \<lfloor>(now - last_tick) / interval\<rfloor> * interval)"
  shows "regenerated cap interval gain now last_tick charges charges' last_tick'"
  using assms remainder_kept [OF assms(1), of "now - last_tick"]
  by (simp add: regenerated_def Let_def algebra_simps)

lemma floor_pos: "(i::real) > 0 \<Longrightarrow> e \<ge> i \<Longrightarrow> \<lfloor>e / i\<rfloor> > 0"
  by (simp add: pos_le_divide_eq)

lemma ally_jump_regenerated:
  assumes "ally_last_jump_bonus_ts s = Some t" and "15 \<le> now - t"
  shows "regenerated 4 15 1 now t (ally_jump_charges s)
           (ally_jump_charges (replenish_ally_jump_charges now s))
           (ally_last_jump_bonus_ts (replenish_ally_jump_charges now s))"
  using assms by (intro regeneratedI) (simp_all add: replenish_ally_jump_charges_def Let_def)

lemma freeze_regenerated:
  assumes "ally_freeze_last_bonus_ts s = Some t" and "30 \<le> now - t"
    and "ally_freeze_initial_bonus_awarded s"
  shows "regenerated 3 30 1 now t (ally_freeze_charges s)
           (ally_freeze_charges (replenish_freeze_charges now s))
           (ally_freeze_last_bonus_ts (replenish_freeze_charges now s))"
  using assms floor_pos [of 30 "now - t"]
  by (intro regeneratedI) (simp_all add: replenish_freeze_charges_def Let_def)

lemma expand_regenerated:
  assumes "ally_expand_last_bonus_ts s = Some t" and "20 \<le> now - t"
    and "ally_expand_initial_bonus_awarded s"
  shows "regenerated 5 20 2 now t (ally_expand_charges s)
           (ally_expand_charges (replenish_expand_charges now s))
           (ally_expand_last_bonus_ts (replenish_expand_charges now s))"
  using assms floor_pos [of 20 "now - t"]
  by (intro regeneratedI) (simp_all add: replenish_expand_charges_def Let_def)

lemma dissolve_regenerated:
  assumes "ally_dissolve_last_bonus_ts s = Some t" and "15 \<le> now - t"
  shows "regenerated (case ally_dissolve_max_charges s of None \<Rightarrow> 2 | Some m \<Rightarrow> m) 15 1 now t
           (case ally_dissolve_charges s of None \<Rightarrow> 1 | Some n \<Rightarrow> n)
           (case ally_dissolve_charges (replenish_dissolve_charges now s) of None \<Rightarrow> 1 | Some n \<Rightarrow> n)
           (ally_dissolve_last_bonus_ts (replenish_dissolve_charges now s))"
  using assms by (intro regeneratedI) (simp_all add: replenish_dissolve_charges_def Let_def)

lemma lift_regenerated:
  assumes "ally_lift_last_bonus_ts s = Some t" and "20 \<le> now - t"
    and "ally_lift_initial_bonus_awarded s"
  shows "regenerated 2 20 1 now t (ally_lift_charges s)
           (ally_lift_charges (replenish_lift_charges now s))
           (ally_lift_last_bonus_ts (replenish_lift_charges now s))"
  using assms floor_pos [of 20 "now - t"]
  by (intro regeneratedI) (simp_all add: replenish_lift_charges_def Let_def)

lemma blink_regenerated:
  assumes "ally_blink_last_bonus_ts s = Some t" and "20 \<le> now - t"
  shows "regenerated 2 20 1 now t (ally_blink_charges s)
           (ally_blink_charges (replenish_blink_charges now s))
           (ally_blink_last_bonus_ts (replenish_blink_charges now s))"
  using assms by (intro regeneratedI) (simp_all add: replenish_blink_charges_def Let_def)

lemma trap_regenerated:
  assumes "ally_trap_last_bonus_ts s = Some t" and "20 \<le> now - t"
  shows "regenerated 2 20 1 now t (ally_trap_charges s)
           (ally_trap_charges (replenish_trap_charges now s))
           (ally_trap_last_bonus_ts (replenish_trap_charges now s))"
  using assms by (intro regeneratedI) (simp_all add: replenish_trap_charges_def Let_def)

text \<open>
  C2, as the code has it. The claim (every time-gated pass with at least one interval
  elapsed awards \<open>floor (elapsed / interval)\<close> times the gain and advances the timestamp
  by that many whole intervals) fails for the abilities with a one-time initial bonus,
  while that bonus is outstanding: on a fresh state of time 100 read at time 146, the
  freeze pass (interval 30 s) grants the initial 2 charges, not 1, and sets the timestamp
  to 146, not to 130, so the 16 seconds of progress are dropped.
\<close>

theorem initial_bonus_resets_timestamp:
  "ally_freeze_last_bonus_ts (new_game_state 100) = Some 100
   \<and> (30 :: real) \<le> 146 - 100
   \<and> ally_freeze_charges (new_game_state 100) = 0
   \<and> ally_freeze_charges (replenish_freeze_charges 146 (new_game_state 100)) = 2
   \<and> ally_freeze_last_bonus_ts (replenish_freeze_charges 146 (new_game_state 100)) = Some 146
   \<and> \<not> regenerated 3 30 1 146 100 (ally_freeze_charges (new_game_state 100))
         (ally_freeze_charges (replenish_freeze_charges 146 (new_game_state 100)))
         (ally_freeze_last_bonus_ts (replenish_freeze_charges 146 (new_game_state 100)))"
  by (simp add: new_game_state_def replenish_freeze_charges_def regenerated_def Let_def)

text \<open>
  C2, amended. A time-gated regeneration pass with last timestamp \<open>t\<close> and current time
  \<open>now\<close>, where at least one interval has elapsed, awards \<open>floor (elapsed / interval)\<close>
  times the gain per tick, capped, and advances the timestamp by exactly that many whole
  intervals, so that the remainder below one interval is kept: this holds of ally jump
  (cap 4, 15 s), dissolve (cap from the state, 15 s), blink and trap (cap 2, 20 s), and
  of freeze (cap 3, 30 s), expand (cap 5, 20 s, gain 2) and lift (cap 2, 20 s) once their
  initial bonus has been granted. For ally jump at 0 charges and 46 elapsed seconds, 3
  charges are granted and the timestamp advances by 45 seconds. While the initial bonus
  of freeze, expand or lift is outstanding and 10 seconds have elapsed, the pass grants
  that bonus (2, 2 and 1 charges, capped), marks it granted and sets the timestamp to
  \<open>now\<close>. The timestamps and the arithmetic on them are those of exact real numbers; the
  rounding of the source's double-precision floats is not part of the statement.
\<close>

theorem time_gated_regeneration:
  "(ally_last_jump_bonus_ts s = Some t \<and> 15 \<le> now - t \<longrightarrow>
      regenerated 4 15 1 now t (ally_jump_charges s)
        (ally_jump_charges (replenish_ally_jump_charges now s))
        (ally_last_jump_bonus_ts (replenish_ally_jump_charges now s)))
   \<and> (ally_freeze_last_bonus_ts s = Some t \<and> ally_freeze_initial_bonus_awarded s \<and> 30 \<le> now - t \<longrightarrow>
      regenerated 3 30 1 now t (ally_freeze_charges s)
        (ally_freeze_charges (replenish_freeze_charges now s))
        (ally_freeze_last_bonus_ts (replenish_freeze_charges now s)))
   \<and> (ally_expand_last_bonus_ts s = Some t \<and> ally_expand_initial_bonus_awarded s \<and> 20 \<le> now - t \<longrightarrow>
      regenerated 5 20 2 now t (ally_expand_charges s)
        (ally_expand_charges (replenish_expand_charges now s))
        (ally_expand_last_bonus_ts (replenish_expand_charges now s)))
   \<and> (ally_dissolve_last_bonus_ts s = Some t \<and> 15 \<le> now - t \<longrightarrow>
      regenerated (case ally_dissolve_max_charges s of None \<Rightarrow> 2 | Some m \<Rightarrow> m) 15 1 now t
        (case ally_dissolve_charges s of None \<Rightarrow> 1 | Some n \<Rightarrow> n)
        (case ally_dissolve_charges (replenish_dissolve_charges now s) of None \<Rightarrow> 1 | Some n \<Rightarrow> n)
        (ally_dissolve_last_bonus_ts (replenish_dissolve_charges now s)))
   \<and> (ally_lift_last_bonus_ts s = Some t \<and> ally_lift_initial_bonus_awarded s \<and> 20 \<le> now - t \<longrightarrow>
      regenerated 2 20 1 now t (ally_lift_charges s)
        (ally_lift_charges (replenish_lift_charges now s))
        (ally_lift_last_bonus_ts (replenish_lift_charges now s)))
   \<and> (ally_blink_last_bonus_ts s = Some t \<and> 20 \<le> now - t \<longrightarrow>
      regenerated 2 20 1 now t (ally_blink_charges s)
        (ally_blink_charges (replenish_blink_charges now s))
        (ally_blink_last_bonus_ts (replenish_blink_charges now s)))
   \<and> (ally_trap_last_bonus_ts s = Some t \<and> 20 \<le> now - t \<longrightarrow>
      regenerated 2 20 1 now t (ally_trap_charges s)
        (ally_trap_charges (replenish_trap_charges now s))
        (ally_trap_last_bonus_ts (replenish_trap_charges now s)))
   \<and> (ally_last_jump_bonus_ts s = Some t \<and> ally_jump_charges s = 0 \<and> now = t + 46 \<longrightarrow>
      ally_jump_charges (replenish_ally_jump_charges now s) = 3
      \<and> ally_last_jump_bonus_ts (replenish_ally_jump_charges now s) = Some (t + 45))
   \<and> (ally_freeze_last_bonus_ts s = Some t \<and> \<not> ally_freeze_initial_bonus_awarded s \<and> 10 \<le> now - t \<longrightarrow>
      ally_freeze_charges (replenish_freeze_charges now s) = min 3 (max 0 (ally_freeze_charges s) + 2)
      \<and> ally_freeze_last_bonus_ts (replenish_freeze_charges now s) = Some now
      \<and> ally_freeze_initial_bonus_awarded (replenish_freeze_charges now s))
   \<and> (ally_expand_last_bonus_ts s = Some t \<and> \<not> ally_expand_initial_bonus_awarded s \<and> 10 \<le> now - t \<longrightarrow>
      ally_expand_charges (replenish_expand_charges now s) = min 5 (max 0 (ally_expand_charges s) + 2)
      \<and> ally_expand_last_bonus_ts (replenish_expand_charges now s) = Some now
      \<and> ally_expand_initial_bonus_awarded (replenish_expand_charges now s))
   \<and> (ally_lift_last_bonus_ts s = Some t \<and> \<not> ally_lift_initial_bonus_awarded s \<and> 10 \<le> now - t \<longrightarrow>
      ally_lift_charges (replenish_lift_charges now s) = min 2 (max 0 (ally_lift_charges s) + 1)
      \<and> ally_lift_last_bonus_ts (replenish_lift_charges now s) = Some now
      \<and> ally_lift_initial_bonus_awarded (replenish_lift_charges now s))"
proof (intro conjI impI)
  assume "ally_last_jump_bonus_ts s = Some t \<and> ally_jump_charges s = 0 \<and> now = t + 46"
  then show "ally_jump_charges (replenish_ally_jump_charges now s) = 3"
    and "ally_last_jump_bonus_ts (replenish_ally_jump_charges now s) = Some (t + 45)"
    by (simp_all add: replenish_ally_jump_charges_def Let_def)
next
  assume "ally_freeze_last_bonus_ts s = Some t \<and> \<not> ally_freeze_initial_bonus_awarded s \<and> 10 \<le> now - t"
  then show "ally_freeze_charges (replenish_freeze_charges now s) = min 3 (max 0 (ally_freeze_charges s) + 2)"
    and "ally_freeze_last_bonus_ts (replenish_freeze_charges now s) = Some now"
    and "ally_freeze_initial_bonus_awarded (replenish_freeze_charges now s)"
    by (simp_all add: replenish_freeze_charges_def)
next
  assume "ally_expand_last_bonus_ts s = Some t \<and> \<not> ally_expand_initial_bonus_awarded s \<and> 10 \<le> now - t"
  then show "ally_expand_charges (replenish_expand_charges now s) = min 5 (max 0 (ally_expand_charges s) + 2)"
    and "ally_expand_last_bonus_ts (replenish_expand_charges now s) = Some now"
    and "ally_expand_initial_bonus_awarded (replenish_expand_charges now s)"
    by (simp_all add: replenish_expand_charges_def)
next
  assume "ally_lift_last_bonus_ts s = Some t \<and> \<not> ally_lift_initial_bonus_awarded s \<and> 10 \<le> now - t"
  then show "ally_lift_charges (replenish_lift_charges now s) = min 2 (max 0 (ally_lift_charges s) + 1)"
    and "ally_lift_last_bonus_ts (replenish_lift_charges now s) = Some now"
    and "ally_lift_initial_bonus_awarded (replenish_lift_charges now s)"
    by (simp_all add: replenish_lift_charges_def)
qed (simp_all add: ally_jump_regenerated freeze_regenerated expand_regenerated
      dissolve_regenerated lift_regenerated blink_regenerated trap_regenerated)

text \<open>
  The theorem at a state whose timestamps are all 100 and whose initial bonuses are
  granted, and at the fresh state of time 100, both read at time 146 (46 seconds
  elapsed).
\<close>

definition regen_example :: game_state where
  "regen_example =
     (new_game_state 100)\<lparr>ally_jump_charges := 0, ally_freeze_initial_bonus_awarded := True,
        ally_expand_initial_bonus_awarded := True, ally_lift_initial_bonus_awarded := True,
        ally_dissolve_last_bonus_ts := Some 100\<rparr>"

theorem time_gated_regeneration_witness:
  "ally_jump_charges (replenish_ally_jump_charges 146 regen_example) = 3
   \<and> ally_last_jump_bonus_ts (replenish_ally_jump_charges 146 regen_example) = Some 145
   \<and> regenerated 4 15 1 146 100 0 3 (Some 145)
   \<and> ally_freeze_charges (replenish_freeze_charges 146 regen_example) = 1
   \<and> ally_freeze_last_bonus_ts (replenish_freeze_charges 146 regen_example) = Some 130
   \<and> ally_expand_charges (replenish_expand_charges 146 regen_example) = 4
   \<and> ally_expand_last_bonus_ts (replenish_expand_charges 146 regen_example) = Some 140
   \<and> ally_dissolve_charges (replenish_dissolve_charges 146 regen_example) = Some 2
   \<and> ally_dissolve_last_bonus_ts (replenish_dissolve_charges 146 regen_example) = Some 145
   \<and> ally_lift_charges (replenish_lift_charges 146 regen_example) = 2
   \<and> ally_blink_charges (replenish_blink_charges 146 regen_example) = 2
   \<and> ally_trap_charges (replenish_trap_charges 146 regen_example) = 2
   \<and> ally_freeze_charges (replenish_freeze_charges 146 (new_game_state 100)) = 2
   \<and> ally_freeze_last_bonus_ts (replenish_freeze_charges 146 (new_game_state 100)) = Some 146
   \<and> ally_expand_charges (replenish_expand_charges 146 (new_game_state 100)) = 2
   \<and> ally_expand_last_bonus_ts (replenish_expand_charges 146 (new_game_state 100)) = Some 146
   \<and> ally_lift_charges (replenish_lift_charges 146 (new_game_state 100)) = 1
   \<and> ally_lift_last_bonus_ts (replenish_lift_charges 146 (new_game_state 100)) = Some 146"
  using time_gated_regeneration [of regen_example 100 146]
    time_gated_regeneration [of "new_game_state 100" 100 146]
  by (simp add: regen_example_def new_game_state_def regenerated_def Let_def split: option.splits)

section \<open>The shield\<close>

lemma shield_loop_keeps_charge:
  "\<exists>n. ch = Some n \<and> 1 \<le> n \<Longrightarrow> \<exists>k. fst (shield_loop a l ch) = Some k \<and> 1 \<le> k"
proof (induction a l ch rule: shield_loop.induct)
  case (1 current_age last_age charges)
  show ?case
  proof (cases "current_age \<ge> last_age + 20")
    case True
    let ?ch = "Some (min 1 (max 0 (case charges of None \<Rightarrow> 0 | Some n \<Rightarrow> n) + 1))"
    from "1.prems" have "\<exists>n. ?ch = Some n \<and> 1 \<le> n" by auto
    from "1.IH" [OF True this] True show ?thesis
      by (simp add: shield_loop.simps [of current_age last_age charges])
  next
    case False
    with "1.prems" show ?thesis
      by (auto simp: shield_loop.simps [of current_age last_age charges])
  qed
qed

lemma sync_shield_state_charge:
  "\<exists>k. shield_charges (sync_shield_state now s) = Some k \<and> 1 \<le> k"
proof -
  let ?n = "max 1 (case shield_charges s of None \<Rightarrow> 1 | Some n \<Rightarrow> n)"
  have "\<exists>n. Some ?n = Some n \<and> 1 \<le> n" by simp
  from shield_loop_keeps_charge [OF this]
  show ?thesis
    by (simp add: sync_shield_state_def grant_shield_bonus_if_needed_def split_beta)
qed

text \<open>
  C10. After a call of \<^verbatim>\<open>get_state_payload\<close>, and after the construction of the
  controller, the hero has at least one shield charge: \<^verbatim>\<open>_sync_shield_state\<close> sets the
  count to \<open>max 1\<close> of what it was, and the age-gated grant that follows keeps a count of
  at least 1. So the charge that \<^verbatim>\<open>activate_shield\<close> has spent is back at the next read of
  the state.
\<close>

theorem shield_charge_after_state_read:
  "(\<exists>k. shield_charges (state (get_state_payload now c)) = Some k \<and> 1 \<le> k)
   \<and> (\<exists>k. shield_charges (state (init_controller R now st gs m disk g)) = Some k \<and> 1 \<le> k)
   \<and> (\<exists>k. shield_charges (state (get_state_payload now' (snd (activate_shield now c)))) = Some k
          \<and> 1 \<le> k)"
  by (simp add: get_state_payload_def init_controller_def Let_def sync_shield_state_charge)

text \<open>
  On the sample controller: one charge after construction, \<^verbatim>\<open>activate_shield\<close> at time 5
  leaves 0, and the state payload read at time 6 shows 1 again.
\<close>

lemma shield_restored_example:
  "shield_charges (state demo_controller) = Some 1
   \<and> fst (activate_shield 5 demo_controller) = Inr 0
   \<and> shield_charges (state (snd (activate_shield 5 demo_controller))) = Some 0
   \<and> shield_charges (state (get_state_payload 6 (snd (activate_shield 5 demo_controller)))) = Some 1"
  by code_simp

section \<open>The decision lifecycle\<close>

text \<open>
  C1. \<^verbatim>\<open>start_decision(x, y)\<close> fails, and changes nothing, when \<open>(x, y)\<close> is not in
  \<^verbatim>\<open>active_decisions\<close>. When it succeeds, the coordinate was active and is removed from the
  set, so a second \<^verbatim>\<open>start_decision\<close> at the same coordinate (with any provider and any
  generator) fails: the coordinate is consumed exactly once. It is startable again after a
  resync of the active set that contains it, or when its entry in \<^verbatim>\<open>dissolved_nodes\<close> is
  due and \<^verbatim>\<open>_expire_dissolved_nodes\<close> runs.
\<close>

theorem start_decision_consumes_once:
  "((x, y) \<notin> active_decisions (state c) \<longrightarrow>
      start_decision R P x y c = (Inl (ValueError not_active_message), c))
   \<and> (start_decision R P x y c = (Inr q, c') \<longrightarrow>
        (x, y) \<in> active_decisions (state c)
        \<and> active_decisions (state c') = active_decisions (state c) - {(x, y)}
        \<and> start_decision R' P' x y c' = (Inl (ValueError not_active_message), c'))
   \<and> ((x, y) \<in> set coords \<and> in_bounds (maze c) (x, y) \<longrightarrow>
        (x, y) \<in> active_decisions (state (set_active_decisions coords c)))
   \<and> (dissolved_nodes (state c) = Some d \<and> ((x, y), ts) \<in> set d \<and> ts \<le> now
        \<and> in_bounds (maze c) (x, y) \<longrightarrow>
        (x, y) \<in> active_decisions (expire_dissolved_nodes now (maze c) (state c)))"
proof (intro conjI impI)
  assume "(x, y) \<notin> active_decisions (state c)"
  then show "start_decision R P x y c = (Inl (ValueError not_active_message), c)"
    by (simp add: start_decision_def)
next
  assume ok: "start_decision R P x y c = (Inr q, c')"
  then show mem: "(x, y) \<in> active_decisions (state c)"
    by (auto simp: start_decision_def split: if_splits)
  from ok mem show act: "active_decisions (state c') = active_decisions (state c) - {(x, y)}"
    by (auto simp: start_decision_def Let_def split: sum.splits prod.splits)
  then have "(x, y) \<notin> active_decisions (state c')" by simp
  then show "start_decision R' P' x y c' = (Inl (ValueError not_active_message), c')"
    by (simp add: start_decision_def)
next
  assume "(x, y) \<in> set coords \<and> in_bounds (maze c) (x, y)"
  then show "(x, y) \<in> active_decisions (state (set_active_decisions coords c))"
    by (auto simp: set_active_decisions_def save_now_def in_bounds_def Let_def split: option.splits)
next
  assume h: "dissolved_nodes (state c) = Some d \<and> ((x, y), ts) \<in> set d \<and> ts \<le> now
        \<and> in_bounds (maze c) (x, y)"
  then have "d \<noteq> []" by auto
  moreover from h have "(x, y) \<in> fst ` {kv \<in> set d. snd kv \<le> now}" by force
  ultimately show "(x, y) \<in> active_decisions (expire_dissolved_nodes now (maze c) (state c))"
    using h by (simp add: expire_dissolved_nodes_def Let_def)
qed

text \<open>
  The theorem on the sample controller, whose only active decision is \<open>(0, 0)\<close>, and for
  the expiry on that controller after \<^verbatim>\<open>dissolve_node(0, 0)\<close> at time 1, read at time 20.
\<close>

theorem start_decision_consumes_once_witness:
  "fst (start_decision lcg demo_provider 0 0 demo_controller) = Inr demo_question
   \<and> active_decisions (state (snd (start_decision lcg demo_provider 0 0 demo_controller)))
        = active_decisions (state demo_controller) - {(0, 0)}
   \<and> start_decision lcg demo_provider 0 0 (snd (start_decision lcg demo_provider 0 0 demo_controller))
        = (Inl (ValueError not_active_message), snd (start_decision lcg demo_provider 0 0 demo_controller))
   \<and> start_decision lcg demo_provider 3 4 demo_controller
        = (Inl (ValueError not_active_message), demo_controller)
   \<and> (0, 0) \<in> active_decisions (state (set_active_decisions [(0, 0)]
        (snd (start_decision lcg demo_provider 0 0 demo_controller))))
   \<and> (0, 0) \<in> active_decisions (expire_dissolved_nodes 20
        (maze (snd (dissolve_node 1 0 0 demo_controller)))
        (state (snd (dissolve_node 1 0 0 demo_controller))))"
proof -
  let ?r = "start_decision lcg demo_provider 0 0 demo_controller"
  let ?c' = "snd ?r"
  let ?cd = "snd (dissolve_node 1 0 0 demo_controller)"
  have f: "fst ?r = Inr demo_question" by code_simp
  then have e: "?r = (Inr demo_question, ?c')" by (simp add: prod_eq_iff)
  have n: "(3, 4) \<notin> active_decisions (state demo_controller)" by code_simp
  have b: "(0, 0) \<in> set [(0 :: int, 0 :: int)] \<and> in_bounds (maze ?c') (0, 0)" by code_simp
  have d: "dissolved_nodes (state ?cd) = Some [((0, 0), 16)] \<and> ((0, 0), 16) \<in> set [((0 :: int, 0 :: int), 16 :: real)]
      \<and> (16 :: real) \<le> 20 \<and> in_bounds (maze ?cd) (0, 0)" by code_simp
  from start_decision_consumes_once [of 0 0 demo_controller lcg demo_provider demo_question ?c'
      lcg demo_provider] e
  have 1: "active_decisions (state ?c') = active_decisions (state demo_controller) - {(0, 0)}"
    and 2: "start_decision lcg demo_provider 0 0 ?c' = (Inl (ValueError not_active_message), ?c')"
    by simp_all
  from start_decision_consumes_once [of 3 4 demo_controller lcg demo_provider] n
  have 3: "start_decision lcg demo_provider 3 4 demo_controller
      = (Inl (ValueError not_active_message), demo_controller)" by simp
  from start_decision_consumes_once [of 0 0 ?c' lcg demo_provider _ _ _ _ "[(0, 0)]"] b
  have 4: "(0, 0) \<in> active_decisions (state (set_active_decisions [(0, 0)] ?c'))" by blast
  from start_decision_consumes_once [of 0 0 ?cd lcg demo_provider _ _ _ _ _ "[((0, 0), 16)]" 16 20] d
  have 5: "(0, 0) \<in> active_decisions (expire_dissolved_nodes 20 (maze ?cd) (state ?cd))" by blast
  from f 1 2 3 4 5 show ?thesis by simp
qed

text \<open>
  C8, as the code has it. The claim (with no pending question under the id, every
  \<^verbatim>\<open>submit_decision\<close> is rejected as a stale reference) fails for an empty answer: the
  answer is checked first, and the call is rejected with \<^verbatim>\<open>Missing decision answer\<close>, not
  with \<^verbatim>\<open>Question not found\<close>.
\<close>

theorem submit_unknown_question_empty_answer:
  "map_of (active_questions demo_controller) ''q0'' = None
   \<and> fst (submit_decision demo_provider demo_voices 1 ''q0'' None None demo_controller)
        = Inl (ValueError ''Missing decision answer'')
   \<and> fst (submit_decision demo_provider demo_voices 1 ''q0'' None None demo_controller)
        \<noteq> Inl (ValueError question_not_found_message)"
  by code_simp

text \<open>
  C8, amended. For every question id with no pending question stored under it,
  \<^verbatim>\<open>submit_decision\<close> fails and returns the controller as it was: no history entry, no
  growth, no change of the value dimensions, no pending question removed, no snapshot.
  The rejection is the stale reference (\<^verbatim>\<open>Question not found; please re-trigger
  decision.\<close>) when the answer is not empty, and the missing answer when it is.
\<close>

theorem submit_unknown_question:
  "map_of (active_questions c) question_id = None \<longrightarrow>
     submit_decision P mk_voices now question_id choice_arg text_arg c
       = (Inl (ValueError (if is_empty \<lparr> choice_id = choice_arg, free_text = text_arg \<rparr>
                           then missing_answer_message else question_not_found_message)), c)"
  by (simp add: submit_decision_def Let_def)

text \<open>The theorem on the sample controller, for the answer with choice 0.\<close>

theorem submit_unknown_question_witness:
  "map_of (active_questions demo_controller) ''q0'' = None
   \<and> \<not> is_empty \<lparr> choice_id = Some 0, free_text = None \<rparr>
   \<and> submit_decision demo_provider demo_voices 1 ''q0'' (Some 0) None demo_controller
        = (Inl (ValueError question_not_found_message), demo_controller)"
proof -
  have h: "map_of (active_questions demo_controller) ''q0'' = None" by code_simp
  have n: "\<not> is_empty \<lparr> choice_id = Some 0, free_text = None \<rparr>" by (simp add: is_empty_def)
  from submit_unknown_question [of demo_controller "''q0''" demo_provider demo_voices 1 "Some 0" None] h n
  show ?thesis by simp
qed

section \<open>What the passes leave alone\<close>

text \<open>
  The regeneration passes, the grants and the sync helpers change the charges, the
  timestamps and the traps. The positions, the visited nodes, the health, the active
  decisions and the dissolved nodes are left as they were, but for the expiry of the
  dissolved nodes (which adds to the active decisions) and \<^verbatim>\<open>_sync_blink_state\<close> (which
  places the ally when it has no position). The shield attributes, once assigned, stay
  assigned.
\<close>

lemma replenish_ally_jump_charges_frame [simp]:
  "current_position (replenish_ally_jump_charges now s) = current_position s"
  "ally_position (replenish_ally_jump_charges now s) = ally_position s"
  "visited_nodes (replenish_ally_jump_charges now s) = visited_nodes s"
  "hero_health (replenish_ally_jump_charges now s) = hero_health s"
  "active_decisions (replenish_ally_jump_charges now s) = active_decisions s"
  "dissolved_nodes (replenish_ally_jump_charges now s) = dissolved_nodes s"
  "shield_charges (replenish_ally_jump_charges now s) = shield_charges s"
  "shield_last_age (replenish_ally_jump_charges now s) = shield_last_age s"
  "shield_active_until (replenish_ally_jump_charges now s) = shield_active_until s"
  by (simp_all add: replenish_ally_jump_charges_def Let_def split: option.split)

lemma replenish_freeze_charges_frame [simp]:
  "current_position (replenish_freeze_charges now s) = current_position s"
  "ally_position (replenish_freeze_charges now s) = ally_position s"
  "visited_nodes (replenish_freeze_charges now s) = visited_nodes s"
  "hero_health (replenish_freeze_charges now s) = hero_health s"
  "active_decisions (replenish_freeze_charges now s) = active_decisions s"
  "dissolved_nodes (replenish_freeze_charges now s) = dissolved_nodes s"
  "shield_charges (replenish_freeze_charges now s) = shield_charges s"
  "shield_last_age (replenish_freeze_charges now s) = shield_last_age s"
  "shield_active_until (replenish_freeze_charges now s) = shield_active_until s"
  by (simp_all add: replenish_freeze_charges_def Let_def split: option.split)

lemma replenish_expand_charges_frame [simp]:
  "current_position (replenish_expand_charges now s) = current_position s"
  "ally_position (replenish_expand_charges now s) = ally_position s"
  "visited_nodes (replenish_expand_charges now s) = visited_nodes s"
  "hero_health (replenish_expand_charges now s) = hero_health s"
  "active_decisions (replenish_expand_charges now s) = active_decisions s"
  "dissolved_nodes (replenish_expand_charges now s) = dissolved_nodes s"
  "shield_charges (replenish_expand_charges now s) = shield_charges s"
  "shield_last_age (replenish_expand_charges now s) = shield_last_age s"
  "shield_active_until (replenish_expand_charges now s) = shield_active_until s"
  by (simp_all add: replenish_expand_charges_def Let_def split: option.split)

lemma replenish_lift_charges_frame [simp]:
  "current_position (replenish_lift_charges now s) = current_position s"
  "ally_position (replenish_lift_charges now s) = ally_position s"
  "visited_nodes (replenish_lift_charges now s) = visited_nodes s"
  "hero_health (replenish_lift_charges now s) = hero_health s"
  "active_decisions (replenish_lift_charges now s) = active_decisions s"
  "dissolved_nodes (replenish_lift_charges now s) = dissolved_nodes s"
  "shield_charges (replenish_lift_charges now s) = shield_charges s"
  "shield_last_age (replenish_lift_charges now s) = shield_last_age s"
  "shield_active_until (replenish_lift_charges now s) = shield_active_until s"
  by (simp_all add: replenish_lift_charges_def Let_def split: option.split)

lemma replenish_blink_charges_frame [simp]:
  "current_position (replenish_blink_charges now s) = current_position s"
  "ally_position (replenish_blink_charges now s) = ally_position s"
  "visited_nodes (replenish_blink_charges now s) = visited_nodes s"
  "hero_health (replenish_blink_charges now s) = hero_health s"
  "active_decisions (replenish_blink_charges now s) = active_decisions s"
  "dissolved_nodes (replenish_blink_charges now s) = dissolved_nodes s"
  "shield_charges (replenish_blink_charges now s) = shield_charges s"
  "shield_last_age (replenish_blink_charges now s) = shield_last_age s"
  "shield_active_until (replenish_blink_charges now s) = shield_active_until s"
  by (simp_all add: replenish_blink_charges_def Let_def split: option.split)

lemma replenish_trap_charges_frame [simp]:
  "current_position (replenish_trap_charges now s) = current_position s"
  "ally_position (replenish_trap_charges now s) = ally_position s"
  "visited_nodes (replenish_trap_charges now s) = visited_nodes s"
  "hero_health (replenish_trap_charges now s) = hero_health s"
  "active_decisions (replenish_trap_charges now s) = active_decisions s"
  "dissolved_nodes (replenish_trap_charges now s) = dissolved_nodes s"
  "shield_charges (replenish_trap_charges now s) = shield_charges s"
  "shield_last_age (replenish_trap_charges now s) = shield_last_age s"
  "shield_active_until (replenish_trap_charges now s) = shield_active_until s"
  by (simp_all add: replenish_trap_charges_def Let_def split: option.split)

lemma replenish_dissolve_charges_frame [simp]:
  "current_position (replenish_dissolve_charges now s) = current_position s"
  "ally_position (replenish_dissolve_charges now s) = ally_position s"
  "visited_nodes (replenish_dissolve_charges now s) = visited_nodes s"
  "hero_health (replenish_dissolve_charges now s) = hero_health s"
  "active_decisions (replenish_dissolve_charges now s) = active_decisions s"
  "dissolved_nodes (replenish_dissolve_charges now s) = dissolved_nodes s"
  "shield_charges (replenish_dissolve_charges now s) = shield_charges s"
  "shield_last_age (replenish_dissolve_charges now s) = shield_last_age s"
  "shield_active_until (replenish_dissolve_charges now s) = shield_active_until s"
  by (simp_all add: replenish_dissolve_charges_def Let_def split: option.split)

lemma expire_traps_frame [simp]:
  "current_position (expire_traps now s) = current_position s"
  "ally_position (expire_traps now s) = ally_position s"
  "visited_nodes (expire_traps now s) = visited_nodes s"
  "hero_health (expire_traps now s) = hero_health s"
  "active_decisions (expire_traps now s) = active_decisions s"
  "dissolved_nodes (expire_traps now s) = dissolved_nodes s"
  "shield_charges (expire_traps now s) = shield_charges s"
  "shield_last_age (expire_traps now s) = shield_last_age s"
  "shield_active_until (expire_traps now s) = shield_active_until s"
  by (simp_all add: expire_traps_def Let_def split: option.split)

lemma grant_jump_bonus_if_needed_frame [simp]:
  "current_position (grant_jump_bonus_if_needed st s) = current_position s"
  "ally_position (grant_jump_bonus_if_needed st s) = ally_position s"
  "visited_nodes (grant_jump_bonus_if_needed st s) = visited_nodes s"
  "hero_health (grant_jump_bonus_if_needed st s) = hero_health s"
  "active_decisions (grant_jump_bonus_if_needed st s) = active_decisions s"
  "dissolved_nodes (grant_jump_bonus_if_needed st s) = dissolved_nodes s"
  "shield_charges (grant_jump_bonus_if_needed st s) = shield_charges s"
  "shield_last_age (grant_jump_bonus_if_needed st s) = shield_last_age s"
  "shield_active_until (grant_jump_bonus_if_needed st s) = shield_active_until s"
  by (simp_all add: grant_jump_bonus_if_needed_def Let_def split: option.split)

lemma grant_escape_by_age_frame [simp]:
  "current_position (grant_escape_by_age s) = current_position s"
  "ally_position (grant_escape_by_age s) = ally_position s"
  "visited_nodes (grant_escape_by_age s) = visited_nodes s"
  "hero_health (grant_escape_by_age s) = hero_health s"
  "active_decisions (grant_escape_by_age s) = active_decisions s"
  "dissolved_nodes (grant_escape_by_age s) = dissolved_nodes s"
  "shield_charges (grant_escape_by_age s) = shield_charges s"
  "shield_last_age (grant_escape_by_age s) = shield_last_age s"
  "shield_active_until (grant_escape_by_age s) = shield_active_until s"
  by (simp_all add: grant_escape_by_age_def split_beta Let_def split: option.split)

lemma apply_growth_frame [simp]:
  "current_position (apply_growth d s) = current_position s"
  "ally_position (apply_growth d s) = ally_position s"
  "visited_nodes (apply_growth d s) = visited_nodes s"
  "hero_health (apply_growth d s) = hero_health s"
  "active_decisions (apply_growth d s) = active_decisions s"
  "dissolved_nodes (apply_growth d s) = dissolved_nodes s"
  "shield_charges (apply_growth d s) = shield_charges s"
  "shield_last_age (apply_growth d s) = shield_last_age s"
  "shield_active_until (apply_growth d s) = shield_active_until s"
  by (simp_all add: apply_growth_def Let_def split: option.split)

lemma sync_jump_charges_with_state_frame [simp]:
  "current_position (sync_jump_charges_with_state st s) = current_position s"
  "ally_position (sync_jump_charges_with_state st s) = ally_position s"
  "visited_nodes (sync_jump_charges_with_state st s) = visited_nodes s"
  "hero_health (sync_jump_charges_with_state st s) = hero_health s"
  "active_decisions (sync_jump_charges_with_state st s) = active_decisions s"
  "dissolved_nodes (sync_jump_charges_with_state st s) = dissolved_nodes s"
  "shield_charges (sync_jump_charges_with_state st s) = shield_charges s"
  "shield_last_age (sync_jump_charges_with_state st s) = shield_last_age s"
  "shield_active_until (sync_jump_charges_with_state st s) = shield_active_until s"
  by (simp_all add: sync_jump_charges_with_state_def)

lemma sync_escape_state_frame [simp]:
  "current_position (sync_escape_state s) = current_position s"
  "ally_position (sync_escape_state s) = ally_position s"
  "visited_nodes (sync_escape_state s) = visited_nodes s"
  "hero_health (sync_escape_state s) = hero_health s"
  "active_decisions (sync_escape_state s) = active_decisions s"
  "dissolved_nodes (sync_escape_state s) = dissolved_nodes s"
  "shield_charges (sync_escape_state s) = shield_charges s"
  "shield_last_age (sync_escape_state s) = shield_last_age s"
  "shield_active_until (sync_escape_state s) = shield_active_until s"
  by (simp_all add: sync_escape_state_def)

lemma sync_freeze_state_frame [simp]:
  "current_position (sync_freeze_state now s) = current_position s"
  "ally_position (sync_freeze_state now s) = ally_position s"
  "visited_nodes (sync_freeze_state now s) = visited_nodes s"
  "hero_health (sync_freeze_state now s) = hero_health s"
  "active_decisions (sync_freeze_state now s) = active_decisions s"
  "dissolved_nodes (sync_freeze_state now s) = dissolved_nodes s"
  "shield_charges (sync_freeze_state now s) = shield_charges s"
  "shield_last_age (sync_freeze_state now s) = shield_last_age s"
  "shield_active_until (sync_freeze_state now s) = shield_active_until s"
  by (simp_all add: sync_freeze_state_def split: option.split)

lemma sync_expand_state_frame [simp]:
  "current_position (sync_expand_state now s) = current_position s"
  "ally_position (sync_expand_state now s) = ally_position s"
  "visited_nodes (sync_expand_state now s) = visited_nodes s"
  "hero_health (sync_expand_state now s) = hero_health s"
  "active_decisions (sync_expand_state now s) = active_decisions s"
  "dissolved_nodes (sync_expand_state now s) = dissolved_nodes s"
  "shield_charges (sync_expand_state now s) = shield_charges s"
  "shield_last_age (sync_expand_state now s) = shield_last_age s"
  "shield_active_until (sync_expand_state now s) = shield_active_until s"
  by (simp_all add: sync_expand_state_def split: option.split)

lemma grant_shield_bonus_if_needed_frame [simp]:
  "current_position (grant_shield_bonus_if_needed s) = current_position s"
  "ally_position (grant_shield_bonus_if_needed s) = ally_position s"
  "visited_nodes (grant_shield_bonus_if_needed s) = visited_nodes s"
  "hero_health (grant_shield_bonus_if_needed s) = hero_health s"
  "active_decisions (grant_shield_bonus_if_needed s) = active_decisions s"
  "dissolved_nodes (grant_shield_bonus_if_needed s) = dissolved_nodes s"
  "shield_active_until (grant_shield_bonus_if_needed s) = shield_active_until s"
  by (simp_all add: grant_shield_bonus_if_needed_def split_beta)

lemma sync_trap_state_frame [simp]:
  "current_position (sync_trap_state now s) = current_position s"
  "ally_position (sync_trap_state now s) = ally_position s"
  "visited_nodes (sync_trap_state now s) = visited_nodes s"
  "hero_health (sync_trap_state now s) = hero_health s"
  "active_decisions (sync_trap_state now s) = active_decisions s"
  "dissolved_nodes (sync_trap_state now s) = dissolved_nodes s"
  "shield_active_until (sync_trap_state now s) = shield_active_until s"
  by (simp_all add: sync_trap_state_def split: option.split)

lemma sync_ally_state_frame [simp]:
  "current_position (sync_ally_state now s) = current_position s"
  "ally_position (sync_ally_state now s) = ally_position s"
  "visited_nodes (sync_ally_state now s) = visited_nodes s"
  "hero_health (sync_ally_state now s) = hero_health s"
  "active_decisions (sync_ally_state now s) = active_decisions s"
  "dissolved_nodes (sync_ally_state now s) = dissolved_nodes s"
  "shield_active_until (sync_ally_state now s) = shield_active_until s"
  by (simp_all add: sync_ally_state_def split: option.split)

lemma sync_shield_state_frame [simp]:
  "current_position (sync_shield_state now s) = current_position s"
  "ally_position (sync_shield_state now s) = ally_position s"
  "visited_nodes (sync_shield_state now s) = visited_nodes s"
  "hero_health (sync_shield_state now s) = hero_health s"
  "active_decisions (sync_shield_state now s) = active_decisions s"
  "dissolved_nodes (sync_shield_state now s) = dissolved_nodes s"
  by (simp_all add: sync_shield_state_def)

lemma expire_dissolved_nodes_frame [simp]:
  "current_position (expire_dissolved_nodes now m s) = current_position s"
  "ally_position (expire_dissolved_nodes now m s) = ally_position s"
  "visited_nodes (expire_dissolved_nodes now m s) = visited_nodes s"
  "hero_health (expire_dissolved_nodes now m s) = hero_health s"
  "shield_charges (expire_dissolved_nodes now m s) = shield_charges s"
  "shield_last_age (expire_dissolved_nodes now m s) = shield_last_age s"
  "shield_active_until (expire_dissolved_nodes now m s) = shield_active_until s"
  by (simp_all add: expire_dissolved_nodes_def Let_def split: option.split)

lemma sync_dissolve_state_frame [simp]:
  "current_position (sync_dissolve_state now m s) = current_position s"
  "ally_position (sync_dissolve_state now m s) = ally_position s"
  "visited_nodes (sync_dissolve_state now m s) = visited_nodes s"
  "hero_health (sync_dissolve_state now m s) = hero_health s"
  "shield_charges (sync_dissolve_state now m s) = shield_charges s"
  "shield_last_age (sync_dissolve_state now m s) = shield_last_age s"
  "shield_active_until (sync_dissolve_state now m s) = shield_active_until s"
  by (simp_all add: sync_dissolve_state_def)

lemma sync_blink_state_frame [simp]:
  "current_position (sync_blink_state now m s) = current_position s"
  "visited_nodes (sync_blink_state now m s) = visited_nodes s"
  "hero_health (sync_blink_state now m s) = hero_health s"
  "active_decisions (sync_blink_state now m s) = active_decisions s"
  "dissolved_nodes (sync_blink_state now m s) = dissolved_nodes s"
  "shield_charges (sync_blink_state now m s) = shield_charges s"
  "shield_last_age (sync_blink_state now m s) = shield_last_age s"
  "shield_active_until (sync_blink_state now m s) = shield_active_until s"
  by (simp_all add: sync_blink_state_def Let_def split: option.split)


lemma shield_loop_some: "ch \<noteq> None \<Longrightarrow> fst (shield_loop a l ch) \<noteq> None"
proof (induction a l ch rule: shield_loop.induct)
  case (1 current_age last_age charges)
  show ?case
  proof (cases "current_age \<ge> last_age + 20")
    case True
    with 1 show ?thesis by (simp add: shield_loop.simps [of current_age last_age charges])
  next
    case False
    with 1 show ?thesis by (simp add: shield_loop.simps [of current_age last_age charges])
  qed
qed

lemma grant_shield_ready [simp]:
  "shield_charges s \<noteq> None \<Longrightarrow> shield_charges (grant_shield_bonus_if_needed s) \<noteq> None"
  "shield_last_age (grant_shield_bonus_if_needed s) \<noteq> None"
  using shield_loop_some [of "shield_charges s" "age s" "case shield_last_age s of None \<Rightarrow> 0 | Some a \<Rightarrow> a"]
  by (simp_all add: grant_shield_bonus_if_needed_def split_beta)

lemma sync_trap_state_ready [simp]:
  "shield_charges s \<noteq> None \<Longrightarrow> shield_charges (sync_trap_state now s) \<noteq> None"
  "shield_last_age (sync_trap_state now s) \<noteq> None"
  by (simp_all add: sync_trap_state_def split: option.split)

lemma sync_shield_state_ready [simp]:
  "shield_charges (sync_shield_state now s) \<noteq> None"
  "shield_last_age (sync_shield_state now s) \<noteq> None"
  "shield_active_until (sync_shield_state now s) \<noteq> None"
  by (simp_all add: sync_shield_state_def)

lemma to_save_data_iff:
  "to_save_data s = Some s' \<longleftrightarrow>
     s' = s \<and> shield_charges s \<noteq> None \<and> shield_last_age s \<noteq> None \<and> shield_active_until s \<noteq> None"
  by (auto simp: to_save_data_def)

lemma to_save_data_None:
  "to_save_data s \<noteq> None \<longleftrightarrow>
     shield_charges s \<noteq> None \<and> shield_last_age s \<noteq> None \<and> shield_active_until s \<noteq> None"
  by (simp add: to_save_data_def)


lemma save_now_frame [simp]:
  "state (save_now c) = state c" "maze (save_now c) = maze c"
  "settings (save_now c) = settings c" "rng_state (save_now c) = rng_state c"
  "active_questions (save_now c) = active_questions c"
  by (simp_all add: save_now_def split: option.split)

lemma get_state_payload_frame [simp]:
  "saved (get_state_payload now c) = saved c"
  "maze (get_state_payload now c) = maze c"
  "settings (get_state_payload now c) = settings c"
  "current_position (state (get_state_payload now c)) = current_position (state c)"
  "ally_position (state (get_state_payload now c)) = ally_position (state c)"
  "visited_nodes (state (get_state_payload now c)) = visited_nodes (state c)"
  "hero_health (state (get_state_payload now c)) = hero_health (state c)"
  by (simp_all add: get_state_payload_def Let_def)

lemma get_state_payload_ready [simp]:
  "to_save_data (state (get_state_payload now c)) \<noteq> None"
  by (simp add: get_state_payload_def Let_def to_save_data_def)

lemma expire_dissolved_nodes_active:
  "active_decisions s \<subseteq> active_decisions (expire_dissolved_nodes now m s)"
  "active_decisions (expire_dissolved_nodes now m s) \<subseteq> active_decisions s \<union> {p. in_bounds m p}"
  "dissolved_nodes s = None \<or> dissolved_nodes s = Some [] \<Longrightarrow> expire_dissolved_nodes now m s = s"
  by (auto simp: expire_dissolved_nodes_def Let_def split: option.split)

lemma get_state_payload_active:
  "active_decisions (state c) \<subseteq> active_decisions (state (get_state_payload now c))"
  "active_decisions (state (get_state_payload now c)) \<subseteq> active_decisions (state c) \<union> {p. in_bounds (maze c) p}"
  using expire_dissolved_nodes_active(1,2) [where s = "replenish_dissolve_charges now
           (replenish_lift_charges now (replenish_expand_charges now (replenish_freeze_charges now
              (replenish_ally_jump_charges now (state c)))))" and now = now and m = "maze c"]
  by (simp_all add: get_state_payload_def Let_def)

lemma mark_node_visited_frame [simp]:
  "shield_charges (snd (mark_node_visited p s)) = shield_charges s"
  "shield_last_age (snd (mark_node_visited p s)) = shield_last_age s"
  "shield_active_until (snd (mark_node_visited p s)) = shield_active_until s"
  "current_position (snd (mark_node_visited p s)) = current_position s"
  "ally_position (snd (mark_node_visited p s)) = ally_position s"
  "hero_health (snd (mark_node_visited p s)) = hero_health s"
  "active_decisions (snd (mark_node_visited p s)) = active_decisions s"
  by (simp_all add: mark_node_visited_def)

lemma grant_shield_ready_ex [simp]:
  "\<exists>y. shield_last_age (grant_shield_bonus_if_needed s) = Some y"
  "shield_charges s = Some k \<Longrightarrow> \<exists>y. shield_charges (grant_shield_bonus_if_needed s) = Some y"
  using shield_loop_some [of "shield_charges s" "age s" "case shield_last_age s of None \<Rightarrow> 0 | Some a \<Rightarrow> a"]
  by (simp_all add: grant_shield_bonus_if_needed_def split_beta)

lemma apply_trap_trigger_frame [simp]:
  "current_position (fst (snd (apply_trap_trigger R now x y s g))) = current_position s"
  "ally_position (fst (snd (apply_trap_trigger R now x y s g))) = ally_position s"
  by (simp_all add: apply_trap_trigger_def Let_def split_beta split: option.split)

lemma init_active_decisions_frame [simp]:
  "maze (init_active_decisions R c) = maze c"
  "saved (init_active_decisions R c) = saved c"
  "settings (init_active_decisions R c) = settings c"
  "current_position (state (init_active_decisions R c)) = current_position (state c)"
  "ally_position (state (init_active_decisions R c)) = ally_position (state c)"
  "visited_nodes (state (init_active_decisions R c)) = visited_nodes (state c)"
  "dissolved_nodes (state (init_active_decisions R c)) = dissolved_nodes (state c)"
  "shield_charges (state (init_active_decisions R c)) = shield_charges (state c)"
  "shield_last_age (state (init_active_decisions R c)) = shield_last_age (state c)"
  "shield_active_until (state (init_active_decisions R c)) = shield_active_until (state c)"
  by (simp_all add: init_active_decisions_def Let_def split_beta)

lemma apply_trap_trigger_active [simp]:
  "active_decisions (fst (snd (apply_trap_trigger R now x y s g))) = active_decisions s"
  by (simp add: apply_trap_trigger_def Let_def split_beta split: option.split)

section \<open>Persistence\<close>





















lemma payload_ready_ex [simp]:
  "\<exists>y. shield_charges (state (get_state_payload now c)) = Some y"
  "\<exists>y. shield_last_age (state (get_state_payload now c)) = Some y"
  "\<exists>y. shield_active_until (state (get_state_payload now c)) = Some y"
  using get_state_payload_ready [of now c] unfolding to_save_data_None by auto

lemma sync_trap_state_ready_ex [simp]:
  "\<exists>y. shield_last_age (sync_trap_state now s) = Some y"
  "shield_charges s = Some k \<Longrightarrow> \<exists>y. shield_charges (sync_trap_state now s) = Some y"
  by (simp_all add: sync_trap_state_def split: option.split)

lemma apply_trap_trigger_shield [simp]:
  "shield_charges (fst (snd (apply_trap_trigger R now x y s g))) = shield_charges s"
  "shield_last_age (fst (snd (apply_trap_trigger R now x y s g))) = shield_last_age s"
  "shield_active_until (fst (snd (apply_trap_trigger R now x y s g))) = shield_active_until s"
  by (simp_all add: apply_trap_trigger_def Let_def split_beta split: option.split)



































section \<open>The positions\<close>

text \<open>
  \<open>positions_in_bounds c\<close>: the hero position, and the ally position when it is set,
  are coordinates of cells of the maze.
\<close>

definition positions_in_bounds :: "'g controller \<Rightarrow> bool" where
  "positions_in_bounds c =
     (in_bounds (maze c) (current_position (state c))
      \<and> (case ally_position (state c) of None \<Rightarrow> True | Some a \<Rightarrow> in_bounds (maze c) a))"



lemma positions_in_bounds_save_now [simp]:
  "positions_in_bounds (save_now c) = positions_in_bounds c"
  by (simp add: positions_in_bounds_def split: option.split)

lemma positions_in_bounds_payload [simp]:
  "positions_in_bounds (get_state_payload now c) = positions_in_bounds c"
  by (simp add: positions_in_bounds_def split: option.split)



















section \<open>The active decisions\<close>

text \<open>
  \<open>unvisited_coords c\<close>: the coordinates of the cells of the maze that are not in
  \<^verbatim>\<open>visited_nodes\<close>. \<open>active_in_maze c\<close>: every active decision is the coordinate of a
  cell of the maze.
\<close>

definition unvisited_coords :: "'g controller \<Rightarrow> (int \<times> int) set" where
  "unvisited_coords c = {p. in_bounds (maze c) p} - visited_nodes (state c)"

definition active_in_maze :: "'g controller \<Rightarrow> bool" where
  "active_in_maze c = (\<forall>p \<in> active_decisions (state c). in_bounds (maze c) p)"

lemma set_init_candidates:
  "set (init_candidates m s) = {p. in_bounds m p} - visited_nodes s"
  by (auto simp: init_candidates_def set_all_coords)

lemma distinct_init_candidates: "distinct (init_candidates m s)"
  by (simp add: init_candidates_def distinct_all_coords)

lemma init_active_decisions_active:
  assumes "shuffle_ok R"
  shows "active_decisions (state (init_active_decisions R c)) \<subseteq> unvisited_coords c"
    and "card (active_decisions (state (init_active_decisions R c)))
           = min 8 (card (unvisited_coords c))"
proof -
  let ?cand = "init_candidates (maze c) (state c)"
  obtain shuffled g' where sh: "rng_shuffle R (rng_state c) ?cand = (shuffled, g')"
    by (cases "rng_shuffle R (rng_state c) ?cand")
  from assms have "mset (fst (rng_shuffle R (rng_state c) ?cand)) = mset ?cand"
    unfolding shuffle_ok_def by blast
  with sh have ms: "mset shuffled = mset ?cand" by simp
  then have st: "set shuffled = set ?cand" by (rule mset_eq_setD)
  from ms have len: "length shuffled = length ?cand" by (rule mset_eq_length)
  from mset_eq_imp_distinct_iff [OF ms] distinct_init_candidates [of "maze c" "state c"]
  have d: "distinct shuffled" by blast
  have act: "active_decisions (state (init_active_decisions R c))
      = set (take (min 8 (length ?cand)) shuffled)"
    using sh by (simp add: init_active_decisions_def Let_def)
  have u: "set ?cand = unvisited_coords c"
    by (simp add: set_init_candidates unvisited_coords_def)
  from set_take_subset [of "min 8 (length ?cand)" shuffled] st u
  show "active_decisions (state (init_active_decisions R c)) \<subseteq> unvisited_coords c"
    unfolding act by simp
  from distinct_init_candidates [of "maze c" "state c"] u
  have c: "card (unvisited_coords c) = length ?cand" using distinct_card [of ?cand] by simp
  from d have "distinct (take (min 8 (length ?cand)) shuffled)" by simp
  then have "card (set (take (min 8 (length ?cand)) shuffled))
      = length (take (min 8 (length ?cand)) shuffled)" by (rule distinct_card)
  also have "\<dots> = min 8 (length ?cand)" using len by simp
  finally show "card (active_decisions (state (init_active_decisions R c)))
           = min 8 (card (unvisited_coords c))"
    unfolding act c .
qed

lemma set_active_decisions_active:
  "active_decisions (state (set_active_decisions coords c)) = {p \<in> set coords. in_bounds (maze c) p}"
  by (auto simp: set_active_decisions_def Let_def in_bounds_def)

lemma set_active_decisions_maze [simp]: "maze (set_active_decisions coords c) = maze c"
  by (simp add: set_active_decisions_def Let_def)

lemma init_controller_active:
  assumes "active_decisions gs = {}" and "dissolved_nodes gs = None"
  shows "active_decisions (state (init_controller R now st gs m disk g))
     = active_decisions (state (init_active_decisions R
         \<lparr> settings = st, state = gs, maze = m, active_questions = [], saved = disk,
           rng_state = g \<rparr>))"
    and "visited_nodes (state (init_controller R now st gs m disk g)) = visited_nodes gs"
    and "maze (init_controller R now st gs m disk g) = m"
  using assms
  by (simp_all add: init_controller_def Let_def sync_dissolve_state_def
      expire_dissolved_nodes_def)

lemma payload_activeD:
  "p \<in> active_decisions (state (get_state_payload now c))
     \<Longrightarrow> p \<in> active_decisions (state c) \<or> in_bounds (maze c) p"
  using get_state_payload_active(2) [of now c] by auto

lemma active_in_maze_payload:
  "active_in_maze c \<Longrightarrow> active_in_maze (get_state_payload now c)"
  by (auto simp: active_in_maze_def dest!: payload_activeD)

lemma active_in_maze_save_now [simp]: "active_in_maze (save_now c) = active_in_maze c"
  by (simp add: active_in_maze_def)

lemma active_in_maze_update:
  assumes "active_in_maze c" and "maze c' = maze c"
    and "active_decisions (state c') \<subseteq> active_decisions (state c)"
  shows "active_in_maze c'"
  using assms by (auto simp: active_in_maze_def)

lemma move_player_active:
  "maze (snd (move_player R now tx ty c)) = maze c"
  "active_decisions (state (snd (move_player R now tx ty c))) = active_decisions (state c)"
  by (simp_all add: move_player_def Let_def split_beta)

lemma apply_wall_mutation_dims:
  "width (snd (apply_wall_mutation mu m)) = width m \<and> height (snd (apply_wall_mutation mu m)) = height m"
  by (simp add: apply_wall_mutation_def Let_def set_wall_def split: option.split)

lemma apply_mutation_list_dims:
  "width (snd (apply_mutation_list mus b m)) = width m
   \<and> height (snd (apply_mutation_list mus b m)) = height m"
proof (induction mus arbitrary: b m)
  case Nil
  show ?case by simp
next
  case (Cons mu mus)
  from Cons [of "b \<or> fst (apply_wall_mutation mu m)" "snd (apply_wall_mutation mu m)"]
    apply_wall_mutation_dims [of mu m]
  show ?case by (simp add: split_beta)
qed

lemma apply_wall_mutations_in_bounds:
  "in_bounds (maze (snd (apply_wall_mutations mus c))) p = in_bounds (maze c) p"
  "state (snd (apply_wall_mutations mus c)) = state c"
  using apply_mutation_list_dims [of mus False "maze c"]
  by (simp_all add: apply_wall_mutations_def split_beta in_bounds_def)

lemma move_player_active_in_maze:
  "active_in_maze c \<Longrightarrow> active_in_maze (snd (move_player R now tx ty c))"
  by (rule active_in_maze_update [of c]) (simp_all add: move_player_active)

lemma apply_wall_mutations_active_in_maze:
  "active_in_maze c \<Longrightarrow> active_in_maze (snd (apply_wall_mutations mus c))"
  by (simp add: active_in_maze_def apply_wall_mutations_in_bounds)

lemma jump_player_active_eq:
  assumes "active_in_maze c" and "jump_player R now direction c = (r, c')"
  shows "active_in_maze c'"
  using assms(2) assms(1)
  by (auto simp: active_in_maze_def jump_player_def Let_def split_beta split: if_splits option.splits sum.splits dest!: payload_activeD)

lemma jump_player_active_in_maze:
  "active_in_maze c \<Longrightarrow> active_in_maze (snd (jump_player R now direction c))"
  using jump_player_active_eq [of c] by (metis prod.collapse)

lemma sync_position_active_eq:
  assumes "active_in_maze c" and "sync_position now tx ty c = (r, c')"
  shows "active_in_maze c'"
  using assms(2) assms(1)
  by (auto simp: active_in_maze_def sync_position_def Let_def split: if_splits dest!: payload_activeD)

lemma sync_position_active_in_maze:
  "active_in_maze c \<Longrightarrow> active_in_maze (snd (sync_position now tx ty c))"
  using sync_position_active_eq [of c] by (metis prod.collapse)

lemma start_decision_active_eq:
  assumes "active_in_maze c" and "start_decision R P x y c = (r, c')"
  shows "active_in_maze c'"
  using assms(2) assms(1)
  by (auto simp: active_in_maze_def start_decision_def Let_def split_beta split: if_splits sum.splits dest!: payload_activeD)

lemma start_decision_active_in_maze:
  "active_in_maze c \<Longrightarrow> active_in_maze (snd (start_decision R P x y c))"
  using start_decision_active_eq [of c] by (metis prod.collapse)

lemma submit_decision_active_eq:
  assumes "active_in_maze c" and "submit_decision P mk_voices now question_id choice_arg text_arg c = (r, c')"
  shows "active_in_maze c'"
  using assms(2) assms(1)
  by (auto simp: active_in_maze_def submit_decision_def Let_def split: if_splits option.splits sum.splits dest!: payload_activeD)

lemma submit_decision_active_in_maze:
  "active_in_maze c \<Longrightarrow> active_in_maze (snd (submit_decision P mk_voices now question_id choice_arg text_arg c))"
  using submit_decision_active_eq [of c] by (metis prod.collapse)

lemma start_lift_active_eq:
  assumes "active_in_maze c" and "start_lift now hero ally c = (r, c')"
  shows "active_in_maze c'"
  using assms(2) assms(1)
  by (auto simp: active_in_maze_def start_lift_def Let_def split: if_splits dest!: payload_activeD)

lemma start_lift_active_in_maze:
  "active_in_maze c \<Longrightarrow> active_in_maze (snd (start_lift now hero ally c))"
  using start_lift_active_eq [of c] by (metis prod.collapse)

lemma throw_lift_active_eq:
  assumes "active_in_maze c" and "throw_lift R now ally direction c = (r, c')"
  shows "active_in_maze c'"
  using assms(2) assms(1)
  by (auto simp: active_in_maze_def throw_lift_def Let_def split_beta split: if_splits option.splits sum.splits dest!: payload_activeD)

lemma throw_lift_active_in_maze:
  "active_in_maze c \<Longrightarrow> active_in_maze (snd (throw_lift R now ally direction c))"
  using throw_lift_active_eq [of c] by (metis prod.collapse)

lemma dissolve_node_active_eq:
  assumes "active_in_maze c" and "dissolve_node now x y c = (r, c')"
  shows "active_in_maze c'"
  using assms(2) assms(1)
  by (auto simp: active_in_maze_def dissolve_node_def Let_def split: if_splits dest!: payload_activeD)

lemma dissolve_node_active_in_maze:
  "active_in_maze c \<Longrightarrow> active_in_maze (snd (dissolve_node now x y c))"
  using dissolve_node_active_eq [of c] by (metis prod.collapse)

lemma place_trap_active_eq:
  assumes "active_in_maze c" and "place_trap now trap_type_arg x y c = (r, c')"
  shows "active_in_maze c'"
  using assms(2) assms(1)
  by (auto simp: active_in_maze_def place_trap_def Let_def split: if_splits dest!: payload_activeD)

lemma place_trap_active_in_maze:
  "active_in_maze c \<Longrightarrow> active_in_maze (snd (place_trap now trap_type_arg x y c))"
  using place_trap_active_eq [of c] by (metis prod.collapse)

lemma apply_freeze_hit_active_eq:
  assumes "active_in_maze c" and "apply_freeze_hit now damage_percent c = (r, c')"
  shows "active_in_maze c'"
  using assms(2) assms(1)
  by (auto simp: active_in_maze_def apply_freeze_hit_def Let_def split: if_splits dest!: payload_activeD)

lemma apply_freeze_hit_active_in_maze:
  "active_in_maze c \<Longrightarrow> active_in_maze (snd (apply_freeze_hit now damage_percent c))"
  using apply_freeze_hit_active_eq [of c] by (metis prod.collapse)

lemma escape_hero_active_eq:
  assumes "active_in_maze c" and "escape_hero ox oy c = (r, c')"
  shows "active_in_maze c'"
  using assms(2) assms(1)
  by (auto simp: active_in_maze_def escape_hero_def Let_def split: if_splits option.splits dest!: payload_activeD)

lemma escape_hero_active_in_maze:
  "active_in_maze c \<Longrightarrow> active_in_maze (snd (escape_hero ox oy c))"
  using escape_hero_active_eq [of c] by (metis prod.collapse)

lemma activate_shield_active_eq:
  assumes "active_in_maze c" and "activate_shield now c = (r, c')"
  shows "active_in_maze c'"
  using assms(2) assms(1)
  by (auto simp: active_in_maze_def activate_shield_def Let_def split: if_splits dest!: payload_activeD)

lemma activate_shield_active_in_maze:
  "active_in_maze c \<Longrightarrow> active_in_maze (snd (activate_shield now c))"
  using activate_shield_active_eq [of c] by (metis prod.collapse)

lemma blink_ally_active_eq:
  assumes "active_in_maze c" and "blink_ally R now c = (r, c')"
  shows "active_in_maze c'"
  using assms(2) assms(1)
  by (auto simp: active_in_maze_def blink_ally_def Let_def split_beta split: if_splits sum.splits dest!: payload_activeD)

lemma blink_ally_active_in_maze:
  "active_in_maze c \<Longrightarrow> active_in_maze (snd (blink_ally R now c))"
  using blink_ally_active_eq [of c] by (metis prod.collapse)

lemma set_active_decisions_active_in_maze: "active_in_maze (set_active_decisions coords c)"
  by (simp add: active_in_maze_def set_active_decisions_active)

lemma payload_active_eq:
  "dissolved_nodes (state c) = None
     \<Longrightarrow> active_decisions (state (get_state_payload now c)) = active_decisions (state c)"
  by (simp add: get_state_payload_def Let_def expire_dissolved_nodes_def)

lemma restart_game_active:
  assumes ok: "shuffle_ok R" and r: "restart_game R now c = (Inr u, c')"
  shows "active_decisions (state c') \<subseteq> unvisited_coords c'"
    and "card (active_decisions (state c')) = min 8 (card (unvisited_coords c'))"
    and "visited_nodes (state c') = {}"
proof -
  obtain sd g1 where rr: "rng_randint R (rng_state c) 1 999999 = (sd, g1)"
    by (cases "rng_randint R (rng_state c) 1 999999")
  from r rr obtain m g2 where
    g: "generate_maze R g1 (maze_width (settings c)) (maze_height (settings c)) (Some sd) = Inr (m, g2)"
    by (auto simp: restart_game_def Let_def split: sum.splits)
  from r rr g obtain c0 where c': "c' = get_state_payload now (save_now (init_active_decisions R c0))"
    and v0: "visited_nodes (state c0) = {}" and d0: "dissolved_nodes (state c0) = None"
    by (auto simp: restart_game_def Let_def new_game_state_def)
  let ?c1 = "init_active_decisions R c0"
  have a: "active_decisions (state c') = active_decisions (state ?c1)"
    unfolding c' using d0 by (simp add: payload_active_eq)
  have u: "unvisited_coords c' = unvisited_coords c0"
    unfolding c' by (simp add: unvisited_coords_def)
  from init_active_decisions_active [OF ok, of c0] a u
  show "active_decisions (state c') \<subseteq> unvisited_coords c'"
    and "card (active_decisions (state c')) = min 8 (card (unvisited_coords c'))"
    by simp_all
  show "visited_nodes (state c') = {}" unfolding c' using v0 by simp
qed

lemma init_controller_population:
  assumes ok: "shuffle_ok R" and e: "active_decisions gs = {}" and d: "dissolved_nodes gs = None"
  shows "active_decisions (state (init_controller R now st gs m disk g))
           \<subseteq> unvisited_coords (init_controller R now st gs m disk g)"
    and "card (active_decisions (state (init_controller R now st gs m disk g)))
           = min 8 (card (unvisited_coords (init_controller R now st gs m disk g)))"
proof -
  let ?c0 = "\<lparr> settings = st, state = gs, maze = m, active_questions = [], saved = disk,
           rng_state = g \<rparr>"
  note ic = init_controller_active [OF e d, of R now st m disk g]
  have u: "unvisited_coords (init_controller R now st gs m disk g) = unvisited_coords ?c0"
    by (simp add: unvisited_coords_def ic)
  from init_active_decisions_active [OF ok, of ?c0] ic(1) u
  show "active_decisions (state (init_controller R now st gs m disk g))
           \<subseteq> unvisited_coords (init_controller R now st gs m disk g)"
    and "card (active_decisions (state (init_controller R now st gs m disk g)))
           = min 8 (card (unvisited_coords (init_controller R now st gs m disk g)))"
    by simp_all
qed

lemma sync_dissolve_state_active:
  "active_decisions (sync_dissolve_state now m s) \<subseteq> active_decisions s \<union> {p. in_bounds m p}"
  using expire_dissolved_nodes_active(2) [where now = now and m = m and s =
    "s\<lparr>ally_dissolve_charges := Some (case ally_dissolve_charges s of None \<Rightarrow> 1 | Some n \<Rightarrow> n),
             ally_dissolve_last_bonus_ts :=
               Some (case ally_dissolve_last_bonus_ts s of None \<Rightarrow> now | Some t \<Rightarrow> t),
             ally_dissolve_max_charges :=
               Some (case ally_dissolve_max_charges s of None \<Rightarrow> 2 | Some n \<Rightarrow> n),
             dissolved_nodes := Some (case dissolved_nodes s of None \<Rightarrow> [] | Some d \<Rightarrow> d)\<rparr>"]
  by (simp add: sync_dissolve_state_def)

lemma init_controller_active_in_maze:
  assumes ok: "shuffle_ok R" and a: "\<forall>p \<in> active_decisions gs. in_bounds m p"
  shows "active_in_maze (init_controller R now st gs m disk g)"
proof -
  let ?c0 = "\<lparr> settings = st, state = gs, maze = m, active_questions = [], saved = disk,
           rng_state = g \<rparr>"
  define c1 where "c1 = (if active_decisions gs = {} then init_active_decisions R ?c0 else ?c0)"
  have a1: "active_decisions (state c1) \<subseteq> {p. in_bounds m p}"
  proof (cases "active_decisions gs = {}")
    case True
    with init_active_decisions_active(1) [OF ok, of ?c0] show ?thesis
      by (auto simp: unvisited_coords_def c1_def)
  next
    case False
    with a show ?thesis by (auto simp: c1_def)
  qed
  define s5 where "s5 = replenish_lift_charges now (replenish_lift_charges now
      (sync_expand_state now (sync_freeze_state now (sync_ally_state now
         (sync_jump_charges_with_state st (state c1))))))"
  define s6 where "s6 = sync_dissolve_state now m s5"
  define s7 where "s7 = expire_dissolved_nodes now m (replenish_dissolve_charges now s6)"
  have a5: "active_decisions s5 = active_decisions (state c1)" by (simp add: s5_def)
  from sync_dissolve_state_active [of now m s5] a5 a1
  have a6: "active_decisions s6 \<subseteq> {p. in_bounds m p}" unfolding s6_def by blast
  have "active_decisions s7 \<subseteq> active_decisions (replenish_dissolve_charges now s6) \<union> {p. in_bounds m p}"
    unfolding s7_def by (rule expire_dissolved_nodes_active(2))
  with a6 have a7: "active_decisions s7 \<subseteq> {p. in_bounds m p}" by auto
  have "active_decisions (state (init_controller R now st gs m disk g)) = active_decisions s7"
    by (simp add: init_controller_def Let_def c1_def s5_def s6_def s7_def)
  moreover have "maze (init_controller R now st gs m disk g) = m"
    by (simp add: init_controller_def Let_def)
  ultimately show ?thesis using a7 by (auto simp: active_in_maze_def)
qed

text \<open>
  C5, as the code has it. The claim (the active decisions are sampled from the
  decision nodes not yet visited, and stay within the decision nodes minus the visited
  nodes) fails: \<^verbatim>\<open>_init_active_decisions\<close> samples from all cells of the grid. On the sample
  controller of 2 by 2 cells, whose decision nodes are \<open>(1, 0)\<close> and \<open>(1, 1)\<close>, the cell
  \<open>(0, 0)\<close> is active after construction. And a move onto an active cell marks it
  visited and leaves it active.
\<close>

theorem active_decision_not_decision_node:
  "decision_nodes_of (maze demo_controller2) = [(1, 0), (1, 1)]
   \<and> (0, 0) \<in> active_decisions (state demo_controller2)
   \<and> \<not> decision_node (grid (maze demo_controller2) (0, 0))
   \<and> \<not> active_decisions (state demo_controller2)
         \<subseteq> set (decision_nodes_of (maze demo_controller2)) - visited_nodes (state demo_controller2)
   \<and> (1, 0) \<in> active_decisions (state (snd (move_player lcg 1 1 0 demo_controller2)))
   \<and> (1, 0) \<in> visited_nodes (state (snd (move_player lcg 1 1 0 demo_controller2)))"
  by code_simp

text \<open>
  C5, amended. At session start (a state without active decisions) and at restart, the
  active decisions are coordinates of cells of the maze that are not yet visited, decision
  nodes or not, and there are \<open>min 8 n\<close> of them, where \<open>n\<close> is the number of such cells
  (the shuffle returning a permutation of its argument). \<^verbatim>\<open>set_active_decisions\<close>
  replaces the set by the given coordinates that are inside the maze. At all times the
  active decisions are coordinates of cells of the maze: this holds after construction
  when it holds of the loaded state, after restart and after every resync, and every
  entry point keeps it.
\<close>

theorem active_decisions_population:
  "(shuffle_ok R \<and> active_decisions gs = {} \<and> dissolved_nodes gs = None \<longrightarrow>
      active_decisions (state (init_controller R now0 st gs m disk g))
        \<subseteq> unvisited_coords (init_controller R now0 st gs m disk g)
      \<and> card (active_decisions (state (init_controller R now0 st gs m disk g)))
           = min 8 (card (unvisited_coords (init_controller R now0 st gs m disk g))))
   \<and> (shuffle_ok R \<and> restart_game R now c = (Inr u, cr) \<longrightarrow>
        active_decisions (state cr) \<subseteq> unvisited_coords cr
        \<and> card (active_decisions (state cr)) = min 8 (card (unvisited_coords cr))
        \<and> active_in_maze cr)
   \<and> (shuffle_ok R \<longrightarrow>
        active_decisions (state (init_active_decisions R c)) \<subseteq> unvisited_coords c
        \<and> card (active_decisions (state (init_active_decisions R c)))
             = min 8 (card (unvisited_coords c)))
   \<and> active_decisions (state (set_active_decisions coords c))
        = {p \<in> set coords. in_bounds (maze c) p}
   \<and> active_in_maze (set_active_decisions coords c)
   \<and> (shuffle_ok R \<and> (\<forall>p \<in> active_decisions gs. in_bounds m p) \<longrightarrow>
        active_in_maze (init_controller R now0 st gs m disk g))
   \<and> (active_in_maze c \<longrightarrow>
        active_in_maze (get_state_payload now c)
        \<and> active_in_maze (snd (move_player R now tx ty c))
        \<and> active_in_maze (snd (apply_wall_mutations mutations c))
        \<and> active_in_maze (snd (jump_player R now direction c))
        \<and> active_in_maze (snd (sync_position now tx ty c))
        \<and> active_in_maze (snd (start_decision R P x y c))
        \<and> active_in_maze (snd (submit_decision P mk_voices now question_id choice_arg text_arg c))
        \<and> active_in_maze (snd (start_lift now hero ally c))
        \<and> active_in_maze (snd (throw_lift R now ally direction c))
        \<and> active_in_maze (snd (dissolve_node now x y c))
        \<and> active_in_maze (snd (place_trap now trap_type_arg x y c))
        \<and> active_in_maze (snd (apply_freeze_hit now damage_percent c))
        \<and> active_in_maze (snd (escape_hero ox oy c))
        \<and> active_in_maze (snd (activate_shield now c))
        \<and> active_in_maze (snd (blink_ally R now c)))"
proof (intro conjI impI)
  assume h: "shuffle_ok R \<and> active_decisions gs = {} \<and> dissolved_nodes gs = None"
  then have ok: "shuffle_ok R" and e: "active_decisions gs = {}" and d: "dissolved_nodes gs = None"
    by simp_all
  show "active_decisions (state (init_controller R now0 st gs m disk g))
        \<subseteq> unvisited_coords (init_controller R now0 st gs m disk g)"
    by (rule init_controller_population(1) [OF ok e d])
  show "card (active_decisions (state (init_controller R now0 st gs m disk g)))
           = min 8 (card (unvisited_coords (init_controller R now0 st gs m disk g)))"
    by (rule init_controller_population(2) [OF ok e d])
next
  assume h: "shuffle_ok R \<and> restart_game R now c = (Inr u, cr)"
  then have ok: "shuffle_ok R" and r: "restart_game R now c = (Inr u, cr)" by simp_all
  show s: "active_decisions (state cr) \<subseteq> unvisited_coords cr"
    by (rule restart_game_active(1) [OF ok r])
  show "card (active_decisions (state cr)) = min 8 (card (unvisited_coords cr))"
    by (rule restart_game_active(2) [OF ok r])
  from s show "active_in_maze cr" by (auto simp: active_in_maze_def unvisited_coords_def)
next
  assume ok: "shuffle_ok R"
  show "active_decisions (state (init_active_decisions R c)) \<subseteq> unvisited_coords c"
    by (rule init_active_decisions_active(1) [OF ok])
  show "card (active_decisions (state (init_active_decisions R c)))
             = min 8 (card (unvisited_coords c))"
    by (rule init_active_decisions_active(2) [OF ok])
next
  show "active_decisions (state (set_active_decisions coords c))
        = {p \<in> set coords. in_bounds (maze c) p}"
    by (rule set_active_decisions_active)
  show "active_in_maze (set_active_decisions coords c)"
    by (rule set_active_decisions_active_in_maze)
next
  assume "shuffle_ok R \<and> (\<forall>p \<in> active_decisions gs. in_bounds m p)"
  then show "active_in_maze (init_controller R now0 st gs m disk g)"
    by (intro init_controller_active_in_maze) simp_all
next
  assume a: "active_in_maze c"
  show "active_in_maze (get_state_payload now c)" using a by (rule active_in_maze_payload)
  show "active_in_maze (snd (move_player R now tx ty c))"
    using a by (rule move_player_active_in_maze)
  show "active_in_maze (snd (apply_wall_mutations mutations c))"
    using a by (rule apply_wall_mutations_active_in_maze)
  show "active_in_maze (snd (jump_player R now direction c))"
    using a by (rule jump_player_active_in_maze)
  show "active_in_maze (snd (sync_position now tx ty c))"
    using a by (rule sync_position_active_in_maze)
  show "active_in_maze (snd (start_decision R P x y c))"
    using a by (rule start_decision_active_in_maze)
  show "active_in_maze (snd (submit_decision P mk_voices now question_id choice_arg text_arg c))"
    using a by (rule submit_decision_active_in_maze)
  show "active_in_maze (snd (start_lift now hero ally c))"
    using a by (rule start_lift_active_in_maze)
  show "active_in_maze (snd (throw_lift R now ally direction c))"
    using a by (rule throw_lift_active_in_maze)
  show "active_in_maze (snd (dissolve_node now x y c))"
    using a by (rule dissolve_node_active_in_maze)
  show "active_in_maze (snd (place_trap now trap_type_arg x y c))"
    using a by (rule place_trap_active_in_maze)
  show "active_in_maze (snd (apply_freeze_hit now damage_percent c))"
    using a by (rule apply_freeze_hit_active_in_maze)
  show "active_in_maze (snd (escape_hero ox oy c))"
    using a by (rule escape_hero_active_in_maze)
  show "active_in_maze (snd (activate_shield now c))"
    using a by (rule activate_shield_active_in_maze)
  show "active_in_maze (snd (blink_ally R now c))"
    using a by (rule blink_ally_active_in_maze)
qed

text \<open>
  The theorem on the sample controller of 2 by 2 cells, built from a fresh state: all 4
  cells are active.
\<close>

theorem active_decisions_population_witness:
  "shuffle_ok lcg
   \<and> active_decisions (new_game_state 0) = {}
   \<and> dissolved_nodes (new_game_state 0) = None
   \<and> active_decisions (state demo_controller2) \<subseteq> unvisited_coords demo_controller2
   \<and> card (active_decisions (state demo_controller2)) = min 8 (card (unvisited_coords demo_controller2))
   \<and> card (active_decisions (state demo_controller2)) = 4
   \<and> active_in_maze demo_controller2
   \<and> active_in_maze (snd (start_decision lcg demo_provider 0 0 demo_controller2))
   \<and> active_in_maze (snd (move_player lcg 1 1 0 demo_controller2))"
proof -
  let ?st = "\<lparr> maze_width = 2, maze_height = 2, start_age = 10, goal_age = 90 \<rparr>"
  have e: "active_decisions (new_game_state 0) = {}" "dissolved_nodes (new_game_state 0) = None"
    by (simp_all add: new_game_state_def)
  have n: "card (active_decisions (state demo_controller2)) = 4" by code_simp
  have a: "active_in_maze demo_controller2" by code_simp
  from active_decisions_population [where R = lcg and gs = "new_game_state 0" and ?now0.0 = 0
      and st = ?st and m = demo_maze2 and disk = "[]" and g = 0] shuffle_ok_lcg e
  have 1: "active_decisions (state demo_controller2) \<subseteq> unvisited_coords demo_controller2"
    and 2: "card (active_decisions (state demo_controller2))
              = min 8 (card (unvisited_coords demo_controller2))"
    by (simp_all add: demo_controller2_def)
  from active_decisions_population [where c = demo_controller2 and R = lcg and P = demo_provider
      and x = 0 and y = 0 and now = 1 and tx = 1 and ty = 0] a
  have 3: "active_in_maze (snd (start_decision lcg demo_provider 0 0 demo_controller2))"
    and 4: "active_in_maze (snd (move_player lcg 1 1 0 demo_controller2))"
    by simp_all
  from shuffle_ok_lcg e n a 1 2 3 4 show ?thesis by blast
qed

end
